theory Spec2Isabelle
  imports Complex_Main "HOL-Library.Sublist" "HOL-Library.Multiset" "HOL-Library.Word"
begin

section \<open>JavaScript values used by the retrieval engine\<close>

text \<open>
  Strings are lists of code units; a \<^typ>\<open>char\<close> stands for the code unit of the same
  number, so the model covers strings whose code units are below 256.  A thrown
  exception is a value \<open>Inl e\<close>: \<open>Error msg\<close> is \<open>new Error(msg)\<close>, and \<open>Exception name msg\<close> is an
  exception of another class (the runtime's \<open>DOMException\<close> or \<open>TypeError\<close>) with its name
  and message.
\<close>

datatype js_error = Error string | Exception string string

subsection \<open>Numbers\<close>

text \<open>
  Numbers are \<^typ>\<open>int\<close> where the program only ever holds integers (lengths, offsets,
  token counts, retry counters) and \<^typ>\<open>real\<close> where it holds scores and vectors.  A
  JavaScript number is an IEEE double, and \<open>+\<close>, \<open>-\<close>, \<open>*\<close>, \<open>/\<close> and \<open>Math.sqrt\<close> return the exact
  result rounded to a double.  The rounding \<open>fl\<close> is a parameter of every function that
  computes with scores, so that nothing depends on how near a double is; an exact result
  of zero is zero whatever the rounding.  What is known of the rounding, where a theorem
  needs it, is \<open>rounds_to_doubles\<close>: a value that is a double already is not changed.
  Overflow is not modelled: the model is the program as long as no operation yields an
  infinity or NaN, which \<open>no_overflow\<close> below secures for a cosine similarity.
\<close>

definition js_number :: "(real \<Rightarrow> real) \<Rightarrow> real \<Rightarrow> real" where
  "js_number fl x = (if x = 0 then 0 else fl x)"

definition js_add :: "(real \<Rightarrow> real) \<Rightarrow> real \<Rightarrow> real \<Rightarrow> real" where
  "js_add fl x y = js_number fl (x + y)"

definition js_sub :: "(real \<Rightarrow> real) \<Rightarrow> real \<Rightarrow> real \<Rightarrow> real" where
  "js_sub fl x y = js_number fl (x - y)"

definition js_mul :: "(real \<Rightarrow> real) \<Rightarrow> real \<Rightarrow> real \<Rightarrow> real" where
  "js_mul fl x y = js_number fl (x * y)"

definition js_div :: "(real \<Rightarrow> real) \<Rightarrow> real \<Rightarrow> real \<Rightarrow> real" where
  "js_div fl x y = js_number fl (x / y)"

definition js_sqrt :: "(real \<Rightarrow> real) \<Rightarrow> real \<Rightarrow> real" where
  "js_sqrt fl x = js_number fl (sqrt x)"

definition rounds_to_doubles :: "(real \<Rightarrow> real) \<Rightarrow> bool" where
  "rounds_to_doubles fl = (\<forall>x. fl (fl x) = fl x)"

text \<open>
  A vector of at most \<open>2^20\<close> numbers of absolute value at most \<open>2^500\<close>.  The products of
  the entries of two such vectors are at most \<open>2^1000\<close> and their sums stay below \<open>2^1021\<close>,
  far inside the range of the doubles, so that no operation of a cosine similarity on them
  yields an infinity or NaN: on such vectors the model is the program.
\<close>

definition no_overflow :: "real list \<Rightarrow> bool" where
  "no_overflow v = (length v \<le> 2 ^ 20 \<and> list_all (\<lambda>x. \<bar>x\<bar> \<le> 2 ^ 500) v)"

text \<open>
  Where an integer is multiplied by a literal and compared with an integer, the double
  is computed exactly.  The literal \<open>0.7\<close> is the double \<open>6305039478318694 / 2^53\<close> and \<open>0.8\<close>
  is \<open>7205759403792794 / 2^53\<close>.  The product of an integer \<open>n\<close> (below \<open>2^53\<close> in absolute
  value) with the double \<open>m / 2^53\<close> is the exact product rounded to 53 significant bits,
  ties to even: \<open>round_to_53_bits (|n| * m) / 2^53\<close> with the sign of \<open>n\<close>.  So \<open>180 * 0.7\<close> is
  \<open>125.99999999999999\<close>, below 126.  \<open>times_double_less n m k\<close> is the comparison
  \<open>n * c < k\<close> for the double \<open>c = m / 2^53\<close>.
\<close>

definition double_0_7 :: nat where
  "double_0_7 = 6305039478318694"

definition double_0_8 :: nat where
  "double_0_8 = 7205759403792794"

fun bit_length :: "nat \<Rightarrow> nat" where
  "bit_length n = (if n = 0 then 0 else Suc (bit_length (n div 2)))"

declare bit_length.simps [simp del]

definition round_to_53_bits :: "nat \<Rightarrow> nat" where
  "round_to_53_bits p =
     (let s = bit_length p - 53
      in if s = 0 then p
         else
           (let q = p div 2 ^ s; r = p mod 2 ^ s; half = 2 ^ (s - 1)
            in (if r > half \<or> (r = half \<and> odd q) then q + 1 else q) * 2 ^ s))"

definition times_double_less :: "int \<Rightarrow> nat \<Rightarrow> int \<Rightarrow> bool" where
  "times_double_less n m k =
     ((if n < 0 then - int (round_to_53_bits (nat (- n) * m))
       else int (round_to_53_bits (nat n * m))) < k * 2 ^ 53)"

section \<open>JavaScript strings and arrays\<close>

text \<open>White space as \<open>String.prototype.trim\<close> and the regular expression class \<open>\s\<close> know it,
  among the code units below 256: tab, line feed, vertical tab, form feed, carriage
  return, space and no-break space.\<close>

definition is_ws :: "char \<Rightarrow> bool" where
  "is_ws c = (c \<in> set [CHR 0x09, CHR 0x0A, CHR 0x0B, CHR 0x0C, CHR 0x0D, CHR 0x20, CHR 0xA0])"

definition trim :: "string \<Rightarrow> string" where
  "trim s = rev (dropWhile is_ws (rev (dropWhile is_ws s)))"

text \<open>\<open>slice(start, end)\<close> of strings and arrays: a negative index counts from the end, both
  are clamped to the length, and the result is empty when \<open>start \<ge> end\<close>.\<close>

definition js_slice :: "'a list \<Rightarrow> int \<Rightarrow> int \<Rightarrow> 'a list" where
  "js_slice s start end' =
     (let n = int (length s);
          from = (if start < 0 then max (n + start) 0 else min start n);
          to = (if end' < 0 then max (n + end') 0 else min end' n)
      in take (nat (to - from)) (drop (nat from) s))"

text \<open>\<open>lastIndexOf(c)\<close> for a single character: the last position of \<open>c\<close>, or \<open>-1\<close>.\<close>

fun lastIndexOf_from :: "string \<Rightarrow> char \<Rightarrow> int \<Rightarrow> int \<Rightarrow> int" where
  "lastIndexOf_from [] c pos found = found"
| "lastIndexOf_from (x # xs) c pos found = lastIndexOf_from xs c (pos + 1) (if x = c then pos else found)"

definition lastIndexOf :: "string \<Rightarrow> char \<Rightarrow> int" where
  "lastIndexOf s c = lastIndexOf_from s c 0 (- 1)"

text \<open>\<open>Array.prototype.join\<close>.\<close>

fun js_join :: "string \<Rightarrow> string list \<Rightarrow> string" where
  "js_join sep [] = []"
| "js_join sep [x] = x"
| "js_join sep (x # y # ys) = x @ sep @ js_join sep (y # ys)"

text \<open>\<open>slice(start)\<close> with one argument runs to the end; \<open>slice(-0)\<close> is \<open>slice(0)\<close>, the whole
  array.\<close>

definition js_slice_from :: "'a list \<Rightarrow> int \<Rightarrow> 'a list" where
  "js_slice_from s start = js_slice s start (int (length s))"

text \<open>
  \<open>split(/\s+/)\<close>: the pieces between maximal runs of white space; a string that starts or
  ends with white space yields an empty first or last piece, and the empty string yields
  one empty piece.
\<close>

fun split_ws_from :: "bool \<Rightarrow> string \<Rightarrow> string \<Rightarrow> string list" where
  "split_ws_from in_separator word [] = [rev word]"
| "split_ws_from in_separator word (c # cs) =
     (if is_ws c
      then (if in_separator then split_ws_from True word cs
            else rev word # split_ws_from True [] cs)
      else split_ws_from False (c # word) cs)"

definition split_ws :: "string \<Rightarrow> string list" where
  "split_ws s = split_ws_from False [] s"

text \<open>\<open>toLowerCase\<close>, for code units below 256: the letters A to Z and the accented
  capitals of Latin-1 (all of 192 to 222 but the multiplication sign) move up by 32.\<close>

definition toLowerChar :: "char \<Rightarrow> char" where
  "toLowerChar c =
     (let n = (of_char c :: nat)
      in if (65 \<le> n \<and> n \<le> 90) \<or> (192 \<le> n \<and> n \<le> 222 \<and> n \<noteq> 215)
         then char_of (n + 32) else c)"

definition toLowerCase :: "string \<Rightarrow> string" where
  "toLowerCase s = map toLowerChar s"


section \<open>Retrieval pipeline: candidate filtering (core/rag/pipeline.ts)\<close>

text \<open>
  \<open>metadata\<close> is the untyped bag \<open>Record<string, any>\<close> restricted to the three keys the
  filter reads; \<open>None\<close> is a key that is absent (\<open>undefined\<close>).
\<close>

record metadata =
  md_tags :: "string list option"
  md_occurredAt :: "int option"
  md_importance :: "real option"

record candidate =
  cand_id :: string
  cand_text :: string
  cand_embedding :: "real list"
  cand_metadata :: metadata

record filters =
  f_tags :: "string list option"
  f_timeRange :: "(int \<times> int) option"
  f_importance :: "real option"

text \<open>\<open>candidate.metadata.tags || []\<close> and \<open>candidate.metadata.importance || 0\<close>.\<close>

definition candidateTags :: "candidate \<Rightarrow> string list" where
  "candidateTags c = (case md_tags (cand_metadata c) of None \<Rightarrow> [] | Some ts \<Rightarrow> ts)"

definition candidateImportance :: "candidate \<Rightarrow> real" where
  "candidateImportance c = (case md_importance (cand_metadata c) of None \<Rightarrow> 0 | Some i \<Rightarrow> i)"

text \<open>
  The callback of \<open>candidates.filter\<close>: three guarded early \<open>return false\<close>, then
  \<open>return true\<close>.  A comparison with an absent \<open>occurredAt\<close> is false in JavaScript, so
  such a candidate is not dropped by the time-range test.
\<close>

definition keepCandidate :: "filters \<Rightarrow> candidate \<Rightarrow> bool" where
  "keepCandidate f c =
     (if (case f_tags f of
            None \<Rightarrow> False
          | Some tags \<Rightarrow>
              length tags > 0 \<and>
              \<not> list_ex (\<lambda>tag. toLowerCase tag \<in> set (candidateTags c)) tags)
      then False
      else if (case f_timeRange f of
                 None \<Rightarrow> False
               | Some (start, end') \<Rightarrow>
                   (case md_occurredAt (cand_metadata c) of
                      None \<Rightarrow> False
                    | Some occurredAt \<Rightarrow> occurredAt < start \<or> occurredAt > end'))
      then False
      else if (case f_importance f of
                 None \<Rightarrow> False
               | Some importance \<Rightarrow> candidateImportance c < importance)
      then False
      else True)"

definition filterCandidates :: "candidate list \<Rightarrow> filters option \<Rightarrow> candidate list" where
  "filterCandidates candidates fo =
     (case fo of None \<Rightarrow> candidates | Some f \<Rightarrow> filter (keepCandidate f) candidates)"

subsection \<open>The tag filter as the specification words it\<close>

text \<open>
  A second definition, written from the specification's sentence ("tag filter (any-match,
  case-insensitive)") and compared with \<open>filterCandidates\<close> below: a candidate passes when
  some requested tag and some tag of the candidate are equal up to letter case.
  \<open>spec_filter_tags\<close> is what the sentence asks of a filter specification that supplies
  tags only (an empty tag list is a filter that is not supplied).
\<close>

definition eq_ignore_case :: "string \<Rightarrow> string \<Rightarrow> bool" where
  "eq_ignore_case a b = (toLowerCase a = toLowerCase b)"

definition spec_tag_match :: "string list \<Rightarrow> candidate \<Rightarrow> bool" where
  "spec_tag_match tags c =
     list_ex (\<lambda>tag. list_ex (\<lambda>u. eq_ignore_case tag u) (candidateTags c)) tags"

definition spec_filter_tags :: "string list \<Rightarrow> candidate list \<Rightarrow> candidate list" where
  "spec_filter_tags tags candidates =
     (if tags = [] then candidates else filter (spec_tag_match tags) candidates)"

subsection \<open>Concrete candidates and filters\<close>

definition cand_Work :: candidate where
  "cand_Work = \<lparr>cand_id = ''c1'', cand_text = ''Quarterly report'', cand_embedding = [1, 0],
     cand_metadata = \<lparr>md_tags = Some [''Work''], md_occurredAt = Some 5, md_importance = Some 0.5\<rparr>\<rparr>"

definition cand_work :: candidate where
  "cand_work = \<lparr>cand_id = ''c2'', cand_text = ''Weekly report'', cand_embedding = [0, 1],
     cand_metadata = \<lparr>md_tags = Some [''work''], md_occurredAt = Some 1, md_importance = None\<rparr>\<rparr>"

definition only_tags :: "string list \<Rightarrow> filters" where
  "only_tags tags = \<lparr>f_tags = Some tags, f_timeRange = None, f_importance = None\<rparr>"

section \<open>Diversity-aware selection (core/mmr/mmr.ts, core/mmr/selector.ts)\<close>

text \<open>
  \<open>new Set(array)\<close> iterates in insertion order and keeps the first occurrence of a
  repeated element; \<open>Set.prototype.delete\<close> is \<open>removeAll\<close>.
\<close>

fun js_set :: "'a list \<Rightarrow> 'a list" where
  "js_set [] = []"
| "js_set (x # xs) = x # removeAll x (js_set xs)"

text \<open>\<open>cosineSimilarity\<close> (the same text in both files); the accumulating \<open>for\<close> loop is
  a \<open>fold\<close> over the index range, that is over \<open>zip a b\<close>, and every operation rounds.\<close>

definition cosineSimilarity :: "(real \<Rightarrow> real) \<Rightarrow> real list \<Rightarrow> real list \<Rightarrow> js_error + real" where
  "cosineSimilarity fl a b =
     (if length a \<noteq> length b then Inl (Error ''Vector dimensions must match'')
      else
        (case fold (\<lambda>(x, y) (dotProduct, normA, normB).
                      (js_add fl dotProduct (js_mul fl x y),
                       js_add fl normA (js_mul fl x x),
                       js_add fl normB (js_mul fl y y))) (zip a b) (0, 0, 0) of
           (dotProduct, normA, normB) \<Rightarrow>
             (let magnitude = js_mul fl (js_sqrt fl normA) (js_sqrt fl normB)
              in Inr (if magnitude = 0 then 0 else js_div fl dotProduct magnitude))))"

text \<open>
  The selection loop is the same text in \<open>mmr\<close> and in \<open>MMRSelector.select\<close> but for how
  an id is scored and looked up, so it is modelled once over both.  \<open>best_of\<close> is the inner
  \<open>for (const id of remaining)\<close>: \<open>(bestId, bestScore)\<close> starts as \<open>('', -Infinity)\<close>
  (\<open>None\<close> is \<open>-Infinity\<close>) and is replaced on a strictly greater score; a score of
  \<open>Inr None\<close> is the \<open>continue\<close> of \<open>mmr\<close>, \<open>Inl\<close> a thrown error.
\<close>

fun best_of :: "(string \<Rightarrow> js_error + real option) \<Rightarrow> string list \<Rightarrow> string \<times> real option
    \<Rightarrow> js_error + string \<times> real option" where
  "best_of score [] best = Inr best"
| "best_of score (i # ids) (bestId, bestScore) =
     (case score i of
        Inl e \<Rightarrow> Inl e
      | Inr None \<Rightarrow> best_of score ids (bestId, bestScore)
      | Inr (Some mmrScore) \<Rightarrow>
          (if (case bestScore of None \<Rightarrow> True | Some b \<Rightarrow> mmrScore > b)
           then best_of score ids (i, Some mmrScore)
           else best_of score ids (bestId, bestScore)))"

text \<open>
  The \<open>while (selected.length < k && remaining.size > 0)\<close> loop.  An empty \<open>bestId\<close> is
  falsy, so an item whose id is the empty string ends the loop when it wins.  When the
  lookup finds nothing the loop body changes nothing and the loop runs again: the loop
  has no bound of its own, and not returning is the value \<open>None\<close>.
\<close>

partial_function (option) mmr_loop ::
  "('a list \<Rightarrow> string \<Rightarrow> js_error + real option) \<Rightarrow> (string \<Rightarrow> 'a option) \<Rightarrow> int
    \<Rightarrow> 'a list \<Rightarrow> string list \<Rightarrow> (js_error + 'a list) option" where
  "mmr_loop score lookup k selected remaining =
     (if int (length selected) < k \<and> remaining \<noteq> [] then
        (case best_of (score selected) remaining ([], None) of
           Inl e \<Rightarrow> Some (Inl e)
         | Inr (bestId, bestScore) \<Rightarrow>
             if bestId \<noteq> [] \<and> bestScore \<noteq> None then
               (case lookup bestId of
                  Some item \<Rightarrow> mmr_loop score lookup k (selected @ [item]) (removeAll bestId remaining)
                | None \<Rightarrow> mmr_loop score lookup k selected remaining)
             else Some (Inr selected))
      else Some (Inr selected))"

subsection \<open>\<open>mmr\<close> (core/mmr/mmr.ts)\<close>

record vec_item =
  vi_id :: string
  vi_vec :: "real list"
  vi_baseScore :: real

definition calculateRelevance :: "(real \<Rightarrow> real) \<Rightarrow> real list \<Rightarrow> real list \<Rightarrow> js_error + real" where
  "calculateRelevance fl queryVec itemVec = cosineSimilarity fl queryVec itemVec"

fun max_similarity :: "(real \<Rightarrow> real) \<Rightarrow> real list \<Rightarrow> real list list \<Rightarrow> real \<Rightarrow> js_error + real" where
  "max_similarity fl cv [] maxSimilarity = Inr maxSimilarity"
| "max_similarity fl cv (sv # svs) maxSimilarity =
     (case cosineSimilarity fl cv sv of
        Inl e \<Rightarrow> Inl e
      | Inr similarity \<Rightarrow> max_similarity fl cv svs (max maxSimilarity similarity))"

definition calculateDiversity :: "(real \<Rightarrow> real) \<Rightarrow> string \<Rightarrow> vec_item list \<Rightarrow> vec_item list \<Rightarrow> js_error + real" where
  "calculateDiversity fl candidateId selectedItems allItems =
     (if selectedItems = [] then Inr 0
      else (case find (\<lambda>item. vi_id item = candidateId) allItems of
              None \<Rightarrow> Inr 0
            | Some candidate \<Rightarrow> max_similarity fl (vi_vec candidate) (map vi_vec selectedItems) 0))"

definition mmr_score :: "(real \<Rightarrow> real) \<Rightarrow> vec_item list \<Rightarrow> real list \<Rightarrow> real \<Rightarrow> vec_item list \<Rightarrow> string
    \<Rightarrow> js_error + real option" where
  "mmr_score fl items queryVec lambda selected i =
     (case find (\<lambda>it. vi_id it = i) items of
        None \<Rightarrow> Inr None
      | Some item \<Rightarrow>
          (case calculateRelevance fl queryVec (vi_vec item) of
             Inl e \<Rightarrow> Inl e
           | Inr relevance \<Rightarrow>
               (case calculateDiversity fl i selected items of
                  Inl e \<Rightarrow> Inl e
                | Inr diversity \<Rightarrow> Inr (Some (js_sub fl (js_mul fl lambda relevance)
                                             (js_mul fl (js_sub fl 1 lambda) diversity))))))"

text \<open>\<open>items.sort((a, b) => b.baseScore - a.baseScore)\<close> is a stable sort by descending
  \<open>baseScore\<close>: the rounded difference of two doubles has the sign of the exact one.\<close>

definition mmr :: "(real \<Rightarrow> real) \<Rightarrow> vec_item list \<Rightarrow> real list \<Rightarrow> real \<Rightarrow> int \<Rightarrow> (js_error + string list) option" where
  "mmr fl items queryVec lambda k =
     (if items = [] then Some (Inr [])
      else if k \<le> 0 then Some (Inr [])
      else if k \<ge> int (length items)
        then Some (Inr (map vi_id (sort_key (\<lambda>item. - vi_baseScore item) items)))
      else map_option (map_sum id (map vi_id))
             (mmr_loop (mmr_score fl items queryVec lambda)
                (\<lambda>bestId. find (\<lambda>it. vi_id it = bestId) items) k [] (js_set (map vi_id items))))"


subsection \<open>\<open>MMRSelector.select\<close> (core/mmr/selector.ts)\<close>

record mmr_item =
  it_id :: string
  it_score :: real
  it_text :: string
  it_metadata :: metadata

record mmr_config =
  mc_lambda :: real
  mc_maxResults :: int
  mc_diversityThreshold :: real

fun initial_scores :: "(real \<Rightarrow> real) \<Rightarrow> real list \<Rightarrow> mmr_item list \<Rightarrow> (string \<rightharpoonup> real list) \<Rightarrow> (string \<rightharpoonup> real)
    \<Rightarrow> js_error + (string \<rightharpoonup> real)" where
  "initial_scores fl queryEmbedding [] embeddings scores = Inr scores"
| "initial_scores fl queryEmbedding (candidate # cs) embeddings scores =
     (case embeddings (it_id candidate) of
        None \<Rightarrow> initial_scores fl queryEmbedding cs embeddings scores
      | Some embedding \<Rightarrow>
          (case calculateRelevance fl queryEmbedding embedding of
             Inl e \<Rightarrow> Inl e
           | Inr relevance \<Rightarrow>
               initial_scores fl queryEmbedding cs embeddings (scores(it_id candidate \<mapsto> relevance))))"

fun selector_max_similarity :: "(real \<Rightarrow> real) \<Rightarrow> real list \<Rightarrow> mmr_item list \<Rightarrow> (string \<rightharpoonup> real list) \<Rightarrow> real
    \<Rightarrow> js_error + real" where
  "selector_max_similarity fl ce [] embeddings maxSimilarity = Inr maxSimilarity"
| "selector_max_similarity fl ce (item # items) embeddings maxSimilarity =
     (case embeddings (it_id item) of
        None \<Rightarrow> selector_max_similarity fl ce items embeddings maxSimilarity
      | Some itemEmbedding \<Rightarrow>
          (case cosineSimilarity fl ce itemEmbedding of
             Inl e \<Rightarrow> Inl e
           | Inr similarity \<Rightarrow>
               selector_max_similarity fl ce items embeddings (max maxSimilarity similarity)))"

definition selector_calculateDiversity :: "(real \<Rightarrow> real) \<Rightarrow> string \<Rightarrow> mmr_item list \<Rightarrow> (string \<rightharpoonup> real list)
    \<Rightarrow> js_error + real" where
  "selector_calculateDiversity fl candidateId selected embeddings =
     (if selected = [] then Inr 0
      else (case embeddings candidateId of
              None \<Rightarrow> Inr 0
            | Some candidateEmbedding \<Rightarrow>
                selector_max_similarity fl candidateEmbedding selected embeddings 0))"

text \<open>\<open>scores.get(id) || 0\<close>.\<close>

definition score_or_zero :: "(string \<rightharpoonup> real) \<Rightarrow> string \<Rightarrow> real" where
  "score_or_zero scores i = (case scores i of None \<Rightarrow> 0 | Some r \<Rightarrow> r)"

definition select_score :: "(real \<Rightarrow> real) \<Rightarrow> mmr_config \<Rightarrow> (string \<rightharpoonup> real) \<Rightarrow> (string \<rightharpoonup> real list)
    \<Rightarrow> mmr_item list \<Rightarrow> string \<Rightarrow> js_error + real option" where
  "select_score fl config scores embeddings selected i =
     (let relevance = score_or_zero scores i
      in case selector_calculateDiversity fl i selected embeddings of
           Inl e \<Rightarrow> Inl e
         | Inr diversity \<Rightarrow>
             Inr (Some (js_sub fl (js_mul fl (mc_lambda config) relevance)
                                  (js_mul fl (js_sub fl 1 (mc_lambda config)) diversity))))"

definition select :: "(real \<Rightarrow> real) \<Rightarrow> mmr_config \<Rightarrow> real list \<Rightarrow> mmr_item list \<Rightarrow> (string \<rightharpoonup> real list)
    \<Rightarrow> (js_error + mmr_item list \<times> (string \<rightharpoonup> real)) option" where
  "select fl config queryEmbedding candidates embeddings =
     (if candidates = [] then Some (Inr ([], Map.empty))
      else
        (case initial_scores fl queryEmbedding candidates embeddings Map.empty of
           Inl e \<Rightarrow> Some (Inl e)
         | Inr scores \<Rightarrow>
             map_option (map_sum id (\<lambda>selected. (selected, scores)))
               (mmr_loop (select_score fl config scores embeddings)
                  (\<lambda>bestId. find (\<lambda>c. it_id c = bestId) candidates)
                  (mc_maxResults config) [] (js_set (map it_id candidates)))))"

subsection \<open>The relevance of an id\<close>

text \<open>The relevance the program computes for an id: \<open>calculateRelevance\<close> of the query
  vector and the vector of the item with that id, its rounding included, and 0 for an id
  without a vector.\<close>

definition relevance_of :: "(real \<Rightarrow> real) \<Rightarrow> vec_item list \<Rightarrow> real list \<Rightarrow> string \<Rightarrow> real" where
  "relevance_of fl items queryVec i =
     (case find (\<lambda>it. vi_id it = i) items of
        None \<Rightarrow> 0
      | Some item \<Rightarrow> (case cosineSimilarity fl queryVec (vi_vec item) of Inl e \<Rightarrow> 0 | Inr r \<Rightarrow> r))"

definition selector_relevance :: "(real \<Rightarrow> real) \<Rightarrow> real list \<Rightarrow> (string \<rightharpoonup> real list) \<Rightarrow> string \<Rightarrow> real" where
  "selector_relevance fl queryEmbedding embeddings i =
     (case embeddings i of
        None \<Rightarrow> 0
      | Some e \<Rightarrow> (case cosineSimilarity fl queryEmbedding e of Inl err \<Rightarrow> 0 | Inr r \<Rightarrow> r))"

subsection \<open>Concrete items\<close>

definition ce_items :: "vec_item list" where
  "ce_items = [\<lparr>vi_id = ''a'', vi_vec = [0, 1], vi_baseScore = 0.9\<rparr>,
               \<lparr>vi_id = ''b'', vi_vec = [1, 0], vi_baseScore = 0.1\<rparr>]"

definition three_items :: "vec_item list" where
  "three_items = [\<lparr>vi_id = ''a'', vi_vec = [0, 1], vi_baseScore = 0.9\<rparr>,
                  \<lparr>vi_id = ''b'', vi_vec = [1, 0], vi_baseScore = 0.1\<rparr>,
                  \<lparr>vi_id = ''c'', vi_vec = [- 1, 0], vi_baseScore = 0.5\<rparr>]"

definition sel_items :: "mmr_item list" where
  "sel_items =
     [\<lparr>it_id = ''far'', it_score = 0, it_text = ''x'',
        it_metadata = \<lparr>md_tags = None, md_occurredAt = None, md_importance = None\<rparr>\<rparr>,
      \<lparr>it_id = ''near'', it_score = 0, it_text = ''y'',
        it_metadata = \<lparr>md_tags = None, md_occurredAt = None, md_importance = None\<rparr>\<rparr>,
      \<lparr>it_id = ''bare'', it_score = 0, it_text = ''z'',
        it_metadata = \<lparr>md_tags = None, md_occurredAt = None, md_importance = None\<rparr>\<rparr>]"

definition sel_embeddings :: "string \<rightharpoonup> real list" where
  "sel_embeddings = [''far'' \<mapsto> [0, 1], ''near'' \<mapsto> [1, 0]]"

section \<open>Retrieval pipeline: query and confidence (core/rag/pipeline.ts)\<close>

record rag_config =
  rc_topK :: int
  rc_mmrLambda :: real
  rc_minScore :: real
  rc_maxCitations :: int

record rag_query =
  rq_question :: string
  rq_context :: "string option"
  rq_filters :: "filters option"

record citation =
  ci_chunkId :: string
  ci_startOff :: nat
  ci_endOff :: nat
  ci_score :: real

record rag_source =
  rs_id :: string
  rs_text :: string
  rs_score :: real
  rs_startOff :: nat
  rs_endOff :: nat

record rag_result =
  rr_answer :: string
  rr_citations :: "citation list"
  rr_confidence :: real
  rr_sources :: "rag_source list"

text \<open>The constructor's \<open>new MMRSelector({lambda: mmrLambda, maxResults: topK})\<close>; the
  selector's schema fills in \<open>diversityThreshold\<close>.\<close>

definition selector_config :: "rag_config \<Rightarrow> mmr_config" where
  "selector_config config = \<lparr>mc_lambda = rc_mmrLambda config, mc_maxResults = rc_topK config,
                    mc_diversityThreshold = 0.3\<rparr>"

definition calculateConfidence :: "(real \<Rightarrow> real) \<Rightarrow> rag_config \<Rightarrow> mmr_item list \<Rightarrow> real" where
  "calculateConfidence fl config sources =
     (if length sources = 0 then 0
      else
        (let avgScore = js_div fl (fold (\<lambda>s sum. js_add fl sum (it_score s)) sources 0)
                                 (real (length sources));
             sourceCount = min (js_div fl (real (length sources))
                                         (real_of_int (rc_maxCitations config))) 1
         in js_mul fl avgScore sourceCount))"

definition generateSimpleAnswer :: "string \<Rightarrow> string list \<Rightarrow> string" where
  "generateSimpleAnswer question sources =
     (let context = js_join '' '' sources
      in ''Based on your personal memory: '' @ take 500 context @ ''...'')"

definition generateAnswer :: "(real \<Rightarrow> real) \<Rightarrow> rag_config \<Rightarrow> string \<Rightarrow> mmr_item list \<Rightarrow> rag_result" where
  "generateAnswer fl config question sources =
     (let cited = take (nat (rc_maxCitations config)) sources;
          citations = map (\<lambda>source. \<lparr>ci_chunkId = it_id source, ci_startOff = 0,
                                      ci_endOff = length (it_text source),
                                      ci_score = it_score source\<rparr>) cited;
          sourceTexts = map it_text cited;
          answer = generateSimpleAnswer question sourceTexts;
          confidence = calculateConfidence fl config sources
      in \<lparr>rr_answer = answer, rr_citations = citations, rr_confidence = confidence,
          rr_sources = map (\<lambda>s. \<lparr>rs_id = it_id s, rs_text = it_text s, rs_score = it_score s,
                                   rs_startOff = 0, rs_endOff = length (it_text s)\<rparr>) sources\<rparr>)"

text \<open>
  \<open>query\<close>.  The embedding generator (\<open>EmbeddingGenerator.generateEmbedding\<close>, a hash-based
  stand-in that returns 384 numbers) is a parameter: what is proved of \<open>query\<close> holds
  whatever vector it returns.  The items handed to the selector carry \<open>score: 0\<close>
  (commented "Will be calculated by MMR" in the source); only \<open>selected\<close> is read from the
  selector's result, the \<open>scores\<close> map is dropped.  \<open>new Map(pairs)\<close> keeps the last value of
  a repeated key.
\<close>

definition query :: "(real \<Rightarrow> real) \<Rightarrow> rag_config \<Rightarrow> (string \<Rightarrow> real list) \<Rightarrow> rag_query \<Rightarrow> candidate list
    \<Rightarrow> (js_error + rag_result) option" where
  "query fl config generateEmbedding q candidates =
     (let queryEmbedding = generateEmbedding (rq_question q);
          filteredCandidates = filterCandidates candidates (rq_filters q);
          mmrCandidates = map (\<lambda>c. \<lparr>it_id = cand_id c, it_score = 0, it_text = cand_text c,
                                      it_metadata = cand_metadata c\<rparr>) filteredCandidates;
          embeddings = map_of (rev (map (\<lambda>c. (cand_id c, cand_embedding c)) filteredCandidates))
      in map_option (map_sum id (\<lambda>(selected, scores). generateAnswer fl config (rq_question q) selected))
           (select fl (selector_config config) queryEmbedding mmrCandidates embeddings))"

text \<open>
  The confidence as the specification words it: the mean relevance (cosine similarity to
  the query embedding) of the selected items, times \<open>min(selectedCount / maxCitations, 1)\<close>.
\<close>

definition spec_confidence :: "(real \<Rightarrow> real) \<Rightarrow> rag_config \<Rightarrow> real list \<Rightarrow> (string \<rightharpoonup> real list) \<Rightarrow> mmr_item list \<Rightarrow> real" where
  "spec_confidence fl config queryEmbedding embeddings selected =
     (if selected = [] then 0
      else (sum_list (map (\<lambda>s. selector_relevance fl queryEmbedding embeddings (it_id s)) selected)
              / real (length selected))
           * min (real (length selected) / real_of_int (rc_maxCitations config)) 1)"

subsection \<open>Concrete query\<close>

definition default_rag_config :: rag_config where
  "default_rag_config = \<lparr>rc_topK = 10, rc_mmrLambda = 0.7, rc_minScore = 0.3, rc_maxCitations = 5\<rparr>"

definition cand_same :: candidate where
  "cand_same = \<lparr>cand_id = ''c1'', cand_text = ''note'', cand_embedding = [1, 0],
     cand_metadata = \<lparr>md_tags = None, md_occurredAt = None, md_importance = None\<rparr>\<rparr>"

definition item_same :: mmr_item where
  "item_same = \<lparr>it_id = ''c1'', it_score = 0, it_text = ''note'',
     it_metadata = \<lparr>md_tags = None, md_occurredAt = None, md_importance = None\<rparr>\<rparr>"

definition query_same :: rag_query where
  "query_same = \<lparr>rq_question = ''what'', rq_context = None, rq_filters = None\<rparr>"

definition emb_same :: "string \<rightharpoonup> real list" where
  "emb_same = map_of (rev [(''c1'', [1, 0])])"

definition scores_same :: "string \<rightharpoonup> real" where
  "scores_same = [''c1'' \<mapsto> 1]"

section \<open>Token budget (core/rag/budget.ts)\<close>

text \<open>\<open>Math.ceil(text.length / 4)\<close>.\<close>

definition budget_estimateTokens :: "string \<Rightarrow> nat" where
  "budget_estimateTokens text = (length text + 3) div 4"

text \<open>\<open>truncateText\<close>; the comparisons \<open>lastSentenceEnd > maxChars * 0.7\<close> and
  \<open>lastSpace > maxChars * 0.8\<close> are made with the doubles \<open>maxChars * 0.7\<close> and
  \<open>maxChars * 0.8\<close>.\<close>

definition truncateText :: "string \<Rightarrow> int \<Rightarrow> string" where
  "truncateText text maxTokens =
     (let maxChars = maxTokens * 4
      in if int (length text) \<le> maxChars then text
         else
           (let truncated = js_slice text 0 maxChars;
                lastSentenceEnd = max (max (lastIndexOf truncated CHR ''.'')
                                           (lastIndexOf truncated CHR ''!''))
                                      (lastIndexOf truncated CHR ''?'')
            in if times_double_less maxChars double_0_7 lastSentenceEnd
               then js_slice text 0 (lastSentenceEnd + 1)
               else
                 (let lastSpace = lastIndexOf truncated CHR '' ''
                  in if times_double_less maxChars double_0_8 lastSpace
                     then js_slice text 0 lastSpace
                     else truncated)))"

record snippet =
  sn_text :: string
  sn_score :: real

text \<open>
  The \<open>for (const snippet of sortedSnippets)\<close> loop of \<open>enforceTokenBudgetWithPriority\<close>,
  with \<open>remainingTokens\<close> threaded through and \<open>selectedSnippets\<close> as the result; both
  \<open>break\<close>s end the recursion.
\<close>

fun pack_snippets :: "snippet list \<Rightarrow> int \<Rightarrow> string list" where
  "pack_snippets [] remainingTokens = []"
| "pack_snippets (snippet # rest) remainingTokens =
     (let snippetTokens = int (budget_estimateTokens (sn_text snippet))
      in if snippetTokens \<le> remainingTokens
         then sn_text snippet # pack_snippets rest (remainingTokens - snippetTokens)
         else if remainingTokens > 20
         then (let truncated = truncateText (sn_text snippet) remainingTokens
               in if length (trim truncated) > 0 then [truncated] else [])
         else [])"

text \<open>\<open>[...snippets].sort((a, b) => b.score - a.score)\<close> is a stable sort by descending
  score on a copy (the rounded difference of two doubles has the sign of the exact one);
  the separator of the final \<open>join\<close> is two line feeds.\<close>

definition enforceTokenBudgetWithPriority :: "snippet list \<Rightarrow> int \<Rightarrow> string" where
  "enforceTokenBudgetWithPriority snippets maxTokens =
     (if length snippets = 0 then []
      else
        (let sortedSnippets = sort_key (\<lambda>s. - sn_score s) snippets
         in js_join [CHR 0x0A, CHR 0x0A] (pack_snippets sortedSnippets maxTokens)))"

text \<open>\<open>fitsWithinBudget\<close>, the module's own test of a text against a budget.\<close>

definition fitsWithinBudget :: "string \<Rightarrow> int \<Rightarrow> bool" where
  "fitsWithinBudget text maxTokens = (int (budget_estimateTokens text) \<le> maxTokens)"

subsection \<open>Concrete snippets\<close>

definition two_snippets :: "snippet list" where
  "two_snippets = [\<lparr>sn_text = ''bbbb'', sn_score = 0.5\<rparr>, \<lparr>sn_text = ''aaaa'', sn_score = 0.9\<rparr>]"

text \<open>A text of 181 characters whose only sentence end is at index 126.\<close>

definition long_text :: string where
  "long_text = replicate 126 CHR ''a'' @ ''.'' @ replicate 54 CHR ''b''"

definition long_snippet :: "snippet list" where
  "long_snippet = [\<lparr>sn_text = long_text, sn_score = 1\<rparr>]"

section \<open>Chunker (core/chunk/chunker.ts)\<close>

text \<open>\<open>Math.ceil(text.length / 3)\<close>.\<close>

definition chunker_estimateTokens :: "string \<Rightarrow> nat" where
  "chunker_estimateTokens text = (length text + 2) div 3"

record sentence =
  s_text :: string
  s_start :: nat
  s_end :: nat

definition is_terminator :: "char \<Rightarrow> bool" where
  "is_terminator c = (c = CHR ''.'' \<or> c = CHR ''!'' \<or> c = CHR ''?'')"

text \<open>
  One \<open>sentenceRegex.exec(text)\<close> for \<open>/[.!?]+\s*/g\<close> on the text from \<open>lastIndex\<close> on: the
  leftmost terminator, then all terminators and all white space that follow.  The result
  is the text before the match, the match, and the text after it; \<open>None\<close> is \<open>null\<close>.  A
  match is never empty, so the regular expression's own \<open>lastIndex\<close> is the end of the
  match, as is the variable \<open>lastIndex\<close> of the loop.
\<close>

definition next_match :: "string \<Rightarrow> (string \<times> string \<times> string) option" where
  "next_match rest =
     (let leading = takeWhile (\<lambda>c. \<not> is_terminator c) rest;
          at_match = dropWhile (\<lambda>c. \<not> is_terminator c) rest
      in if at_match = [] then None
         else
           (let punctuation = takeWhile is_terminator at_match;
                spaces = takeWhile is_ws (dropWhile is_terminator at_match)
            in Some (leading, punctuation @ spaces,
                     dropWhile is_ws (dropWhile is_terminator at_match))))"

text \<open>
  The \<open>while\<close> loop of \<open>splitIntoSentences\<close> followed by its "remaining text" block
  (\<open>rest\<close> is \<open>text.slice(lastIndex)\<close>, and \<open>lastIndex < text.length\<close> says it is not empty).
\<close>

function split_from :: "nat \<Rightarrow> string \<Rightarrow> sentence list" where
  "split_from lastIndex rest =
     (case next_match rest of
        None \<Rightarrow>
          (if lastIndex < lastIndex + length rest \<and> length (trim rest) > 0
           then [\<lparr>s_text = trim rest, s_start = lastIndex, s_end = lastIndex + length rest\<rparr>]
           else [])
      | Some (leading, matched, rest') \<Rightarrow>
          (let matchEnd = lastIndex + length leading + length matched;
               sentenceText = trim (leading @ matched)
           in (if length sentenceText > 0
               then [\<lparr>s_text = sentenceText, s_start = lastIndex, s_end = matchEnd\<rparr>]
               else [])
              @ split_from matchEnd rest'))"
  by pat_completeness auto
termination
proof (relation "measure (\<lambda>(lastIndex, rest). length rest)", goal_cases)
  case 1
  show ?case by simp
next
  case (2 lastIndex rest found leading tail matched rest')
  let ?at = "dropWhile (\<lambda>c. \<not> is_terminator c) rest"
  from 2 have "next_match rest = Some (leading, matched, rest')" by simp
  then have ne: "?at \<noteq> []" and r: "rest' = dropWhile is_ws (dropWhile is_terminator ?at)"
    by (auto simp: next_match_def Let_def split: if_splits)
  from ne have "is_terminator (hd ?at)"
    using hd_dropWhile [of "\<lambda>c. \<not> is_terminator c" rest] by simp
  with ne have "length (dropWhile is_terminator ?at) < length ?at"
    by (cases ?at) (auto simp: le_imp_less_Suc length_dropWhile_le)
  moreover have "length rest' \<le> length (dropWhile is_terminator ?at)"
    unfolding r by (rule length_dropWhile_le)
  moreover have "length ?at \<le> length rest"
    by (rule length_dropWhile_le)
  ultimately show ?case by simp
qed

definition splitIntoSentences :: "string \<Rightarrow> sentence list" where
  "splitIntoSentences text =
     (let sentences = split_from 0 text
      in if length sentences = 0 \<and> length (trim text) > 0
         then [\<lparr>s_text = trim text, s_start = 0, s_end = length text\<rparr>]
         else sentences)"

text \<open>\<open>createOverlap\<close>: \<open>Math.ceil(overlapTokens * 0.8)\<close> is taken over the reals.\<close>

definition createOverlap :: "string \<Rightarrow> int \<Rightarrow> string" where
  "createOverlap chunkText overlapTokens =
     (let words = split_ws chunkText;
          overlapWords = min (int (length words)) \<lceil>real_of_int overlapTokens * 0.8\<rceil>
      in js_join '' '' (js_slice_from words (- overlapWords)))"

record chunk =
  c_start :: int
  c_end :: int
  c_text :: string

record chunker_state =
  cs_chunks :: "chunk list"
  cs_currentChunk :: string
  cs_currentStart :: int
  cs_currentTokens :: nat

text \<open>
  One round of the \<open>for\<close> loop of \<open>chunkText\<close>.  The chunk text is built from the trimmed
  sentences joined by one space; \<open>currentStart\<close> of a new chunk is
  \<open>sentence.start - overlap.length\<close>, with no lower bound.
\<close>

definition chunk_step :: "int \<Rightarrow> int \<Rightarrow> real \<Rightarrow> chunker_state \<Rightarrow> sentence \<Rightarrow> chunker_state" where
  "chunk_step targetTokens overlapTokens minChunkTokens st sentence =
     (let potentialChunk = cs_currentChunk st @ (if cs_currentChunk st \<noteq> [] then '' '' else [])
                             @ s_text sentence;
          potentialTokens = chunker_estimateTokens potentialChunk
      in if int potentialTokens > targetTokens \<and> real (cs_currentTokens st) \<ge> minChunkTokens
         then
           (let overlap = createOverlap (cs_currentChunk st) overlapTokens;
                currentChunk = overlap @ (if overlap \<noteq> [] then '' '' else []) @ s_text sentence
            in \<lparr>cs_chunks = cs_chunks st @
                   [\<lparr>c_start = cs_currentStart st,
                     c_end = cs_currentStart st + int (length (cs_currentChunk st)),
                     c_text = trim (cs_currentChunk st)\<rparr>],
                cs_currentChunk = currentChunk,
                cs_currentStart = int (s_start sentence) - int (length overlap),
                cs_currentTokens = chunker_estimateTokens currentChunk\<rparr>)
         else st\<lparr>cs_currentChunk := potentialChunk, cs_currentTokens := potentialTokens\<rparr>)"

definition chunkText :: "string \<Rightarrow> int \<Rightarrow> int \<Rightarrow> chunk list" where
  "chunkText input targetTokens overlapTokens =
     (if input = [] \<or> length (trim input) = 0 then []
      else
        (let minChunkTokens = min 20 (real_of_int targetTokens / 8);
             sentences = splitIntoSentences input
         in if length sentences = 0 then []
            else
              (let st = foldl (chunk_step targetTokens overlapTokens minChunkTokens)
                          \<lparr>cs_chunks = [], cs_currentChunk = [], cs_currentStart = 0,
                           cs_currentTokens = 0\<rparr> sentences
               in if real (cs_currentTokens st) \<ge> minChunkTokens \<or>
                     (length (cs_chunks st) = 0 \<and> length (trim (cs_currentChunk st)) > 0)
                  then cs_chunks st @
                         [\<lparr>c_start = cs_currentStart st,
                           c_end = cs_currentStart st + int (length (cs_currentChunk st)),
                           c_text = trim (cs_currentChunk st)\<rparr>]
                  else cs_chunks st)))"

text \<open>\<open>validateChunks\<close> compares the slice itself, untrimmed, with the chunk's text.\<close>

definition validateChunks :: "chunk list \<Rightarrow> string \<Rightarrow> bool" where
  "validateChunks chunks originalText =
     list_all (\<lambda>chunk. js_slice originalText (c_start chunk) (c_end chunk) = c_text chunk) chunks"

text \<open>What the specification asks of a chunk: the trimmed slice of the source between the
  chunk's offsets is the chunk's text; and that the offsets lie within the source.\<close>

definition chunk_aligned :: "string \<Rightarrow> chunk \<Rightarrow> bool" where
  "chunk_aligned source c = (trim (js_slice source (c_start c) (c_end c)) = c_text c)"

definition chunk_in_bounds :: "string \<Rightarrow> chunk \<Rightarrow> bool" where
  "chunk_in_bounds source c = (0 \<le> c_start c \<and> c_start c \<le> c_end c \<and> c_end c \<le> int (length source))"

subsection \<open>Concrete texts\<close>

text \<open>The text of the repository's test "handles text with whitespace between
  sentences": \<open>'First.   \n\n   Second.'\<close>.\<close>

definition test_text :: string where
  "test_text = ''First.'' @ [CHR 0x20, CHR 0x20, CHR 0x20, CHR 0x0A, CHR 0x0A, CHR 0x20, CHR 0x20, CHR 0x20] @ ''Second.''"

section \<open>Embedding job queue (workers/embedding.ts)\<close>

text \<open>
  The worker's fields are \<open>queue\<close> and \<open>isProcessing\<close>.  The model adds what the JavaScript
  runtime holds for it: the batch whose promises are pending (\<open>w_batch\<close>), the timers set
  with \<open>setTimeout\<close> and not yet fired (\<open>w_timers\<close>, each with the time it is due and its
  callback), the clock (\<open>w_now\<close>, in milliseconds), and the notifications emitted so far
  (\<open>w_events\<close>).  \<open>'r\<close> is the type of an embedding result.
\<close>

record job =
  j_id :: string
  j_entryId :: string
  j_content :: string
  j_occurredAt :: int
  j_priority :: int
  j_retries :: nat

record worker_config =
  wc_batchSize :: nat
  wc_maxRetries :: nat
  wc_retryDelay :: nat

datatype 'r worker_event = JobSuccess job 'r | JobFailed job js_error

datatype timer_callback = Requeue job | ContinueQueue

record timer =
  t_due :: nat
  t_callback :: timer_callback

record 'r worker =
  w_queue :: "job list"
  w_isProcessing :: bool
  w_batch :: "job list"
  w_timers :: "timer list"
  w_now :: nat
  w_events :: "'r worker_event list"

definition setTimeout :: "timer_callback \<Rightarrow> nat \<Rightarrow> 'r worker \<Rightarrow> 'r worker" where
  "setTimeout callback delay w =
     w\<lparr>w_timers := w_timers w @ [\<lparr>t_due = w_now w + delay, t_callback = callback\<rparr>]\<rparr>"

definition emit :: "'r worker_event \<Rightarrow> 'r worker \<Rightarrow> 'r worker" where
  "emit event w = w\<lparr>w_events := w_events w @ [event]\<rparr>"

text \<open>
  \<open>processQueue\<close> up to its \<open>await\<close>: the guard, the flag, and \<open>queue.splice(0, batchSize)\<close>.
  The jobs of the batch are then pending.
\<close>

definition processQueue :: "worker_config \<Rightarrow> 'r worker \<Rightarrow> 'r worker" where
  "processQueue config w =
     (if w_isProcessing w \<or> length (w_queue w) = 0 then w
      else w\<lparr>w_isProcessing := True,
             w_batch := take (wc_batchSize config) (w_queue w),
             w_queue := drop (wc_batchSize config) (w_queue w)\<rparr>)"

definition handleJobSuccess :: "job \<Rightarrow> 'r \<Rightarrow> 'r worker \<Rightarrow> 'r worker" where
  "handleJobSuccess job result w = emit (JobSuccess job result) w"

text \<open>\<open>handleJobFailure\<close>: \<open>job.retries++\<close>, then either the retry timer with the delay
  \<open>retryDelay * Math.pow(2, job.retries - 1)\<close> or the failure notification.\<close>

definition handleJobFailure :: "worker_config \<Rightarrow> job \<Rightarrow> js_error \<Rightarrow> 'r worker \<Rightarrow> 'r worker" where
  "handleJobFailure config job0 error w =
     (let job = job0\<lparr>j_retries := j_retries job0 + 1\<rparr>
      in if j_retries job < wc_maxRetries config
         then (let delay = wc_retryDelay config * 2 ^ (j_retries job - 1)
               in setTimeout (Requeue job) delay w)
         else emit (JobFailed job error) w)"

text \<open>
  \<open>processQueue\<close> from its \<open>await\<close> on, run when all promises of the batch have settled.
  \<open>handleResult\<close> is the body of its loop over the batch: the job is handled according to the
  outcome of \<open>processJob\<close> (which chunks and embeds outside the worker, and is a parameter:
  \<open>Inl\<close> is a rejection; it sees the job with its current \<open>retries\<close>).  Then the \<open>finally\<close>
  block clears the flag and, if jobs are queued, sets the one-second timer that calls
  \<open>processQueue\<close> again.  No timer can fire in between: the \<open>await\<close>s of the loop resume in
  microtasks.
\<close>

definition handleResult :: "worker_config \<Rightarrow> (job \<Rightarrow> js_error + 'r) \<Rightarrow> job \<Rightarrow> 'r worker \<Rightarrow> 'r worker" where
  "handleResult config processJob job w =
     (case processJob job of
        Inl reason \<Rightarrow> handleJobFailure config job reason w
      | Inr result \<Rightarrow> handleJobSuccess job result w)"

definition settleBatch :: "worker_config \<Rightarrow> (job \<Rightarrow> js_error + 'r) \<Rightarrow> 'r worker \<Rightarrow> 'r worker" where
  "settleBatch config processJob w =
     (let handled = fold (handleResult config processJob) (w_batch w) w;
          idle = handled\<lparr>w_isProcessing := False, w_batch := []\<rparr>
      in if length (w_queue idle) > 0 then setTimeout ContinueQueue 1000 idle else idle)"

text \<open>The two timer callbacks: the retry's \<open>queue.push(job); processQueue()\<close> and the
  continuation's \<open>processQueue()\<close>.\<close>

definition fireTimer :: "worker_config \<Rightarrow> timer_callback \<Rightarrow> 'r worker \<Rightarrow> 'r worker" where
  "fireTimer config callback w =
     (case callback of
        Requeue job \<Rightarrow> processQueue config (w\<lparr>w_queue := w_queue w @ [job]\<rparr>)
      | ContinueQueue \<Rightarrow> processQueue config w)"

text \<open>\<open>addJob\<close>; the id is what \<open>crypto.randomUUID()\<close> returned, and
  \<open>queue.sort((a, b) => b.priority - a.priority)\<close> is a stable sort by descending priority.\<close>

definition addJob :: "worker_config \<Rightarrow> string \<Rightarrow> job \<Rightarrow> 'r worker \<Rightarrow> 'r worker" where
  "addJob config jobId job w =
     (let fullJob = job\<lparr>j_id := jobId, j_retries := 0\<rparr>;
          queued = w\<lparr>w_queue := sort_key (\<lambda>j. - j_priority j) (w_queue w @ [fullJob])\<rparr>
      in if w_isProcessing queued then queued else processQueue config queued)"

text \<open>
  The event loop.  What the runtime does next is not decided by the worker: the pending
  batch settles when \<open>processJob\<close> is done with all of its jobs, and a timer fires when it
  is due, which for timers set at different moments depends on how long the batches took.
  A schedule is therefore a list of turns, each naming what happens next: the pending
  batch settles, or one of the timers fires (\<open>TimerFires i\<close> the \<open>i\<close>-th of those set, counted
  modulo their number).  A turn that names what cannot happen (no batch pending, or no
  timer set) takes the other move, so that every turn does something unless the worker
  is quiescent: no batch pending and no timer set.  Firing a timer moves the clock to
  its due time, if that is later.
\<close>

datatype turn = BatchSettles | TimerFires nat

fun timer_index :: "turn \<Rightarrow> nat" where
  "timer_index BatchSettles = 0"
| "timer_index (TimerFires i) = i"

definition pick :: "nat \<Rightarrow> timer list \<Rightarrow> (timer \<times> timer list) option" where
  "pick i ts =
     (if ts = [] then None
      else (let k = i mod length ts in Some (ts ! k, take k ts @ drop (Suc k) ts)))"

definition step :: "worker_config \<Rightarrow> (job \<Rightarrow> js_error + 'r) \<Rightarrow> turn \<Rightarrow> 'r worker \<Rightarrow> 'r worker" where
  "step config processJob turn w =
     (if w_isProcessing w \<and> (turn = BatchSettles \<or> w_timers w = [])
      then settleBatch config processJob w
      else
        (case pick (timer_index turn) (w_timers w) of
           None \<Rightarrow> w
         | Some (t, rest) \<Rightarrow>
             fireTimer config (t_callback t)
               (w\<lparr>w_timers := rest, w_now := max (w_now w) (t_due t)\<rparr>)))"

fun run :: "worker_config \<Rightarrow> (job \<Rightarrow> js_error + 'r) \<Rightarrow> turn list \<Rightarrow> 'r worker \<Rightarrow> 'r worker" where
  "run config processJob [] w = w"
| "run config processJob (turn # turns) w =
     run config processJob turns (step config processJob turn w)"

definition idle_worker :: "nat \<Rightarrow> 'r worker" where
  "idle_worker now = \<lparr>w_queue = [], w_isProcessing = False, w_batch = [], w_timers = [],
                      w_now = now, w_events = []\<rparr>"

subsection \<open>What becomes of a job\<close>

text \<open>
  \<open>fate\<close> is the notification a job ends with, read off \<open>processJob\<close> alone: the success of
  the first attempt that succeeds, or the failure of the attempt that brings \<open>retries\<close> to
  \<open>maxRetries\<close>.  \<open>pending\<close> lists the jobs the worker still owes a notification: those
  queued, those in the pending batch, and those waiting on a retry timer.
\<close>

function fate :: "worker_config \<Rightarrow> (job \<Rightarrow> js_error + 'r) \<Rightarrow> job \<Rightarrow> 'r worker_event" where
  "fate config processJob job =
     (case processJob job of
        Inr result \<Rightarrow> JobSuccess job result
      | Inl error \<Rightarrow>
          if j_retries job + 1 < wc_maxRetries config
          then fate config processJob (job\<lparr>j_retries := j_retries job + 1\<rparr>)
          else JobFailed (job\<lparr>j_retries := j_retries job + 1\<rparr>) error)"
  by pat_completeness auto
termination
  by (relation "measure (\<lambda>(config, processJob, job). wc_maxRetries config - j_retries job)") auto

fun requeued :: "timer list \<Rightarrow> job list" where
  "requeued [] = []"
| "requeued (t # ts) = (case t_callback t of Requeue job \<Rightarrow> job # requeued ts | ContinueQueue \<Rightarrow> requeued ts)"

definition pending :: "'r worker \<Rightarrow> job list" where
  "pending w = w_queue w @ w_batch w @ requeued (w_timers w)"

definition accounted :: "worker_config \<Rightarrow> (job \<Rightarrow> js_error + 'r) \<Rightarrow> 'r worker \<Rightarrow> 'r worker_event multiset" where
  "accounted config processJob w =
     mset (w_events w) + mset (map (fate config processJob) (pending w))"

text \<open>
  A worker is \<open>quiescent\<close> when nothing is queued, pending or scheduled.  It is \<open>well_formed\<close>
  when \<open>isProcessing\<close> is set exactly while a batch is pending and queued jobs are never
  stranded: a batch is pending or a timer is set whenever the queue is not empty.  The
  idle worker is well formed, and \<open>addJob\<close> and every turn keep it so.
\<close>

definition quiescent :: "'r worker \<Rightarrow> bool" where
  "quiescent w = (w_isProcessing w = False \<and> w_queue w = [] \<and> w_batch w = [] \<and> w_timers w = [])"

definition well_formed :: "'r worker \<Rightarrow> bool" where
  "well_formed w =
     ((w_isProcessing w = (w_batch w \<noteq> [])) \<and>
      (w_isProcessing w \<or> w_queue w = [] \<or> w_timers w \<noteq> []))"

text \<open>
  \<open>backlog\<close> bounds the number of turns the worker still needs: each job counts for the
  attempts it has left, each timer for its firing.  \<open>outcome_events\<close> and \<open>outcome_timers\<close>
  are what handling one job of a settled batch emits and schedules.
\<close>

definition job_weight :: "worker_config \<Rightarrow> job \<Rightarrow> nat" where
  "job_weight config job = 4 * (wc_maxRetries config - j_retries job) + 2"

definition timer_weight :: "worker_config \<Rightarrow> timer \<Rightarrow> nat" where
  "timer_weight config t =
     (case t_callback t of Requeue job \<Rightarrow> job_weight config job + 2 | ContinueQueue \<Rightarrow> 2)"

definition backlog :: "worker_config \<Rightarrow> 'r worker \<Rightarrow> nat" where
  "backlog config w =
     sum_list (map (job_weight config) (w_queue w)) + sum_list (map (job_weight config) (w_batch w)) +
     sum_list (map (timer_weight config) (w_timers w)) + (if w_isProcessing w then 1 else 0)"

definition outcome_events :: "worker_config \<Rightarrow> (job \<Rightarrow> js_error + 'r) \<Rightarrow> job \<Rightarrow> 'r worker_event list" where
  "outcome_events config processJob job =
     (case processJob job of
        Inr result \<Rightarrow> [JobSuccess job result]
      | Inl error \<Rightarrow>
          if j_retries job + 1 < wc_maxRetries config then []
          else [JobFailed (job\<lparr>j_retries := j_retries job + 1\<rparr>) error])"

definition outcome_timers :: "worker_config \<Rightarrow> (job \<Rightarrow> js_error + 'r) \<Rightarrow> nat \<Rightarrow> job \<Rightarrow> timer list" where
  "outcome_timers config processJob now job =
     (case processJob job of
        Inr result \<Rightarrow> []
      | Inl error \<Rightarrow>
          if j_retries job + 1 < wc_maxRetries config
          then [\<lparr>t_due = now + wc_retryDelay config * 2 ^ j_retries job,
                 t_callback = Requeue (job\<lparr>j_retries := j_retries job + 1\<rparr>)\<rparr>]
          else [])"

subsection \<open>States of a single job's life\<close>

text \<open>\<open>attempt job k\<close> is the job with \<open>retries = k\<close>; \<open>in_flight\<close> is the worker while that job
  alone is being processed, \<open>waiting\<close> the worker while its retry timer alone is set.\<close>

definition attempt :: "job \<Rightarrow> nat \<Rightarrow> job" where
  "attempt job k = job\<lparr>j_retries := k\<rparr>"

definition in_flight :: "nat \<Rightarrow> job \<Rightarrow> 'r worker" where
  "in_flight now job = \<lparr>w_queue = [], w_isProcessing = True, w_batch = [job], w_timers = [],
                        w_now = now, w_events = []\<rparr>"

definition waiting :: "nat \<Rightarrow> nat \<Rightarrow> job \<Rightarrow> 'r worker" where
  "waiting now delay job = \<lparr>w_queue = [], w_isProcessing = False, w_batch = [],
      w_timers = [\<lparr>t_due = now + delay, t_callback = Requeue job\<rparr>], w_now = now, w_events = []\<rparr>"

subsection \<open>Concrete jobs\<close>

text \<open>\<open>flaky\<close> fails the first two attempts of a job, \<open>broken\<close> fails all of them, and \<open>mixed\<close> is
  \<open>flaky\<close> for the job \<open>job-1\<close> and \<open>broken\<close> for every other.  \<open>two_jobs\<close> is the worker after two
  jobs were added to an idle one.\<close>

definition default_worker_config :: worker_config where
  "default_worker_config = \<lparr>wc_batchSize = 8, wc_maxRetries = 3, wc_retryDelay = 5000\<rparr>"

definition job0 :: job where
  "job0 = \<lparr>j_id = [], j_entryId = ''entry-1'', j_content = ''Some text.'', j_occurredAt = 1,
           j_priority = 0, j_retries = 0\<rparr>"

definition flaky :: "job \<Rightarrow> js_error + nat" where
  "flaky job = (if j_retries job < 2 then Inl (Error ''model down'') else Inr 1)"

definition broken :: "job \<Rightarrow> js_error + nat" where
  "broken job = Inl (Error ''model down'')"

definition job1 :: job where
  "job1 = job0\<lparr>j_id := ''job-1''\<rparr>"

definition job2 :: job where
  "job2 = job0\<lparr>j_id := ''job-2''\<rparr>"

definition mixed :: "job \<Rightarrow> js_error + nat" where
  "mixed job = (if j_id job = ''job-1'' then flaky job else broken job)"

definition two_jobs :: "nat worker" where
  "two_jobs = addJob default_worker_config ''job-2'' job0
                (addJob default_worker_config ''job-1'' job0 (idle_worker 0))"

section \<open>Crypto envelope (core/crypto/aes.ts, core/crypto/kdf.ts)\<close>

text \<open>
  AES-GCM, PBKDF2 and the random source are not code of the repository: they are the
  runtime's Web Crypto object.  The record \<open>web_crypto\<close> holds the calls the repository
  makes on \<open>crypto.subtle\<close>, each with the arguments the repository varies; \<open>'k\<close> is the type
  of a \<open>CryptoKey\<close>, \<open>Inl\<close> a rejected promise.  \<open>subtle_timingSafeEqual\<close> is the property
  \<open>crypto.subtle.timingSafeEqual\<close>, \<open>None\<close> when the runtime's \<open>SubtleCrypto\<close> has no such
  method (the Web Crypto standard defines none), in which case the call throws a
  \<open>TypeError\<close>.  The bytes of \<open>crypto.getRandomValues\<close> are an argument of the function that
  draws them.
\<close>

type_synonym bytes = "8 word list"

record 'k web_crypto =
  importKey_AES_GCM :: "bytes \<Rightarrow> js_error + 'k"
  encrypt_AES_GCM :: "bytes \<Rightarrow> 'k \<Rightarrow> bytes \<Rightarrow> js_error + bytes"
  decrypt_AES_GCM :: "bytes \<Rightarrow> 'k \<Rightarrow> bytes \<Rightarrow> js_error + bytes"
  importKey_PBKDF2 :: "bytes \<Rightarrow> js_error + 'k"
  deriveBits_PBKDF2 :: "bytes \<Rightarrow> nat \<Rightarrow> 'k \<Rightarrow> nat \<Rightarrow> js_error + bytes"
  subtle_timingSafeEqual :: "(bytes \<Rightarrow> bytes \<Rightarrow> js_error + bool) option"

text \<open>The text of \<open>${error}\<close> in a message, which is \<open>Error.prototype.toString\<close>: the name and
  the message joined by a colon, or the one of them that is not empty.  A rejection of
  \<open>crypto.subtle\<close> is a \<open>DOMException\<close> and prints as, say, \<open>OperationError: ...\<close>.\<close>

definition error_text :: "js_error \<Rightarrow> string" where
  "error_text e =
     (case e of
        Error msg \<Rightarrow> (if msg = [] then ''Error'' else ''Error: '' @ msg)
      | Exception name msg \<Rightarrow>
          (if name = [] then msg else if msg = [] then name else name @ '': '' @ msg))"

record wrap_result =
  wr_wrappedDEK :: bytes
  wr_nonce :: bytes

record encrypt_result =
  er_cipher :: bytes
  er_nonce :: bytes

text \<open>\<open>wrapDEK\<close> and \<open>unwrapDEK\<close>; \<open>importKey\<close> is called outside the \<open>try\<close> block, so its
  rejection is passed on as it is.\<close>

definition wrapDEK :: "'k web_crypto \<Rightarrow> bytes \<Rightarrow> bytes \<Rightarrow> bytes \<Rightarrow> js_error + wrap_result" where
  "wrapDEK platform nonce kekKey dekPlain =
     (if length dekPlain \<noteq> 32 then Inl (Error ''DEK must be 256 bits (32 bytes)'')
      else
        (case importKey_AES_GCM platform kekKey of
           Inl e \<Rightarrow> Inl e
         | Inr key \<Rightarrow>
             (case encrypt_AES_GCM platform nonce key dekPlain of
                Inl e \<Rightarrow> Inl (Error (''DEK wrapping failed: '' @ error_text e))
              | Inr wrappedDEK \<Rightarrow> Inr \<lparr>wr_wrappedDEK = wrappedDEK, wr_nonce = nonce\<rparr>)))"

definition unwrapDEK :: "'k web_crypto \<Rightarrow> bytes \<Rightarrow> bytes \<Rightarrow> bytes \<Rightarrow> js_error + bytes" where
  "unwrapDEK platform kekKey wrappedDEK nonce =
     (case importKey_AES_GCM platform kekKey of
        Inl e \<Rightarrow> Inl e
      | Inr key \<Rightarrow>
          (case decrypt_AES_GCM platform nonce key wrappedDEK of
             Inl e \<Rightarrow> Inl (Error (''DEK unwrapping failed: '' @ error_text e))
           | Inr dekPlain \<Rightarrow> Inr dekPlain))"

text \<open>\<open>seal\<close> and \<open>open\<close> (named \<open>open_cipher\<close> here, \<open>open\<close> being a constant of the library).\<close>

definition seal :: "'k web_crypto \<Rightarrow> bytes \<Rightarrow> bytes \<Rightarrow> bytes \<Rightarrow> js_error + encrypt_result" where
  "seal platform nonce dek plaintext =
     (case importKey_AES_GCM platform dek of
        Inl e \<Rightarrow> Inl e
      | Inr key \<Rightarrow>
          (case encrypt_AES_GCM platform nonce key plaintext of
             Inl e \<Rightarrow> Inl (Error (''Encryption failed: '' @ error_text e))
           | Inr cipher \<Rightarrow> Inr \<lparr>er_cipher = cipher, er_nonce = nonce\<rparr>))"

definition open_cipher :: "'k web_crypto \<Rightarrow> bytes \<Rightarrow> bytes \<Rightarrow> bytes \<Rightarrow> js_error + bytes" where
  "open_cipher platform dek cipher nonce =
     (case importKey_AES_GCM platform dek of
        Inl e \<Rightarrow> Inl e
      | Inr key \<Rightarrow>
          (case decrypt_AES_GCM platform nonce key cipher of
             Inl e \<Rightarrow> Inl (Error (''Decryption failed: '' @ error_text e))
           | Inr plaintext \<Rightarrow> Inr plaintext))"

text \<open>\<open>new TextEncoder().encode(passphrase)\<close>, for code units below 256.\<close>

definition utf8_encode :: "string \<Rightarrow> bytes" where
  "utf8_encode s =
     concat (map (\<lambda>c. let n = (of_char c :: nat)
                      in if n < 128 then [word_of_nat n]
                         else [word_of_nat (192 + n div 64), word_of_nat (128 + n mod 64)]) s)"

text \<open>
  \<open>verifyPassphrase\<close>: every exception inside the \<open>try\<close> block, the \<open>TypeError\<close> of calling a
  missing method included, ends in \<open>return false\<close>.
\<close>

definition verifyPassphrase :: "'k web_crypto \<Rightarrow> string \<Rightarrow> bytes \<Rightarrow> bytes \<Rightarrow> bool" where
  "verifyPassphrase platform passphrase kdfSalt expectedKey =
     (case importKey_PBKDF2 platform (utf8_encode passphrase) of
        Inl e \<Rightarrow> False
      | Inr keyMaterial \<Rightarrow>
          (case deriveBits_PBKDF2 platform kdfSalt 100000 keyMaterial 256 of
             Inl e \<Rightarrow> False
           | Inr derivedKeyArray \<Rightarrow>
               if length derivedKeyArray \<noteq> length expectedKey then False
               else
                 (case subtle_timingSafeEqual platform of
                    None \<Rightarrow> False
                  | Some timingSafeEqual \<Rightarrow>
                      (case timingSafeEqual derivedKeyArray expectedKey of
                         Inl e \<Rightarrow> False
                       | Inr equal \<Rightarrow> equal))))"

subsection \<open>What the envelope relies on\<close>

text \<open>Decrypting, under the same key and nonce, what the runtime's AES-GCM encrypted gives
  the plaintext back.\<close>

definition aead_correct :: "'k web_crypto \<Rightarrow> bool" where
  "aead_correct platform =
     (\<forall>iv key plaintext cipher.
        encrypt_AES_GCM platform iv key plaintext = Inr cipher \<longrightarrow>
        decrypt_AES_GCM platform iv key cipher = Inr plaintext)"

subsection \<open>A small runtime for concrete runs\<close>

text \<open>
  A stand-in for the runtime with the interface above: keys of 16, 24 or 32 bytes,
  "encryption" that adds the key's first byte to every byte and appends the nonce as the
  tag, and a key derivation that repeats one byte.  It only serves to run the functions
  on concrete inputs; \<open>toy_crypto_plain\<close> is the same runtime without
  \<open>crypto.subtle.timingSafeEqual\<close>.
\<close>

definition toy_decrypt :: "bytes \<Rightarrow> bytes \<Rightarrow> bytes \<Rightarrow> js_error + bytes" where
  "toy_decrypt iv key cipher =
     (if length iv \<le> length cipher \<and> drop (length cipher - length iv) cipher = iv
      then Inr (map (\<lambda>b. b - hd key) (take (length cipher - length iv) cipher))
      else Inl (Exception ''OperationError'' ''The operation failed for an operation-specific reason''))"

definition toy_crypto :: "bytes web_crypto" where
  "toy_crypto =
     \<lparr>importKey_AES_GCM = (\<lambda>material. if length material \<in> {16, 24, 32} then Inr material
                                        else Inl (Exception ''DataError'' ''Invalid key length'')),
      encrypt_AES_GCM = (\<lambda>iv key plaintext. Inr (map (\<lambda>b. b + hd key) plaintext @ iv)),
      decrypt_AES_GCM = toy_decrypt,
      importKey_PBKDF2 = (\<lambda>material. Inr material),
      deriveBits_PBKDF2 = (\<lambda>salt iterations material bits.
                            Inr (replicate (bits div 8) (word_of_nat (length material + length salt)))),
      subtle_timingSafeEqual = Some (\<lambda>a b. if length a = length b then Inr (a = b)
                                             else Inl (Exception ''TypeError'' ''Input buffers must have the same byte length''))\<rparr>"

definition toy_crypto_plain :: "bytes web_crypto" where
  "toy_crypto_plain = toy_crypto\<lparr>subtle_timingSafeEqual := None\<rparr>"

section \<open>Theorems\<close>

subsection \<open>Candidate filtering\<close>

lemma toLowerCase_WORK: "toLowerCase ''WORK'' = ''work''"
  by code_simp

lemma toLowerCase_Work: "toLowerCase ''Work'' = ''work''"
  by code_simp

lemma toLowerCase_work: "toLowerCase ''work'' = ''work''"
  by code_simp

text \<open>What the code's tag test is: the lower-cased form of some requested tag is among the
  candidate's tags as they are stored.\<close>

lemma keepCandidate_only_tags:
  "keepCandidate (only_tags tags) c
     = (tags = [] \<or> (\<exists>tag \<in> set tags. toLowerCase tag \<in> set (candidateTags c)))"
  by (auto simp: keepCandidate_def only_tags_def list_ex_iff)

text \<open>On candidates whose stored tags are all in lower case the code and the
  specification's sentence agree.\<close>

lemma filterCandidates_lower_case_tags:
  assumes "\<forall>c \<in> set candidates. \<forall>u \<in> set (candidateTags c). toLowerCase u = u"
  shows "filterCandidates candidates (Some (only_tags tags)) = spec_filter_tags tags candidates"
proof -
  have "keepCandidate (only_tags tags) c = (tags = [] \<or> spec_tag_match tags c)"
    if "c \<in> set candidates" for c
    using assms that
    by (auto simp: keepCandidate_only_tags spec_tag_match_def eq_ignore_case_def list_ex_iff)
  then show ?thesis
    by (auto simp: filterCandidates_def spec_filter_tags_def intro: filter_cong)
qed

text \<open>
  C8.  Filtering is to keep exactly the candidates that pass all supplied filters, the tag
  filter matching a requested tag against a candidate tag case-insensitively.  The code
  lower-cases the requested tag and compares it with the candidate's tags as they are
  stored (\<open>candidateTags.includes(tag.toLowerCase())\<close>), so a candidate whose stored tag
  has a capital letter is never matched:
  \<^item> the candidate tagged \<open>Work\<close> is dropped by the request \<open>Work\<close>, the very same tag;
  \<^item> of the candidates tagged \<open>Work\<close> and \<open>work\<close>, the request \<open>WORK\<close> keeps the second only;
  by the specification's sentence the candidate is kept in the first case and both are
  kept in the second.
\<close>

theorem filterCandidates_case_sensitive:
  "filterCandidates [cand_Work] (Some (only_tags [''Work''])) = [] \<and>
   spec_filter_tags [''Work''] [cand_Work] = [cand_Work] \<and>
   filterCandidates [cand_Work, cand_work] (Some (only_tags [''WORK''])) = [cand_work] \<and>
   spec_filter_tags [''WORK''] [cand_Work, cand_work] = [cand_Work, cand_work]"
  by (simp add: filterCandidates_def keepCandidate_def only_tags_def spec_filter_tags_def
      spec_tag_match_def eq_ignore_case_def candidateTags_def cand_Work_def cand_work_def
      toLowerCase_WORK toLowerCase_Work toLowerCase_work)

subsection \<open>The greedy selection loop\<close>

lemma js_set_set [simp]: "set (js_set xs) = set xs"
  by (induction xs) auto

lemma js_set_distinct [simp]: "distinct (js_set xs)"
  by (induction xs) (auto simp: distinct_removeAll)

lemma best_of_max:
  assumes "\<forall>i \<in> set ids. score i = Inr (Some (f i))"
  shows "\<exists>bi bs. best_of score ids (b0, s0) = Inr (bi, bs) \<and>
           ((bi = b0 \<and> bs = s0) \<or> (bi \<in> set ids \<and> bs = Some (f bi))) \<and>
           (ids \<noteq> [] \<longrightarrow> bs \<noteq> None) \<and>
           (\<forall>v. s0 = Some v \<longrightarrow> (\<exists>w. bs = Some w \<and> v \<le> w)) \<and>
           (\<forall>i \<in> set ids. \<exists>w. bs = Some w \<and> f i \<le> w)"
  using assms
proof (induction ids arbitrary: b0 s0)
  case Nil
  then show ?case by simp
next
  case (Cons i ids)
  have sc: "score i = Inr (Some (f i))" and rest: "\<forall>j \<in> set ids. score j = Inr (Some (f j))"
    using Cons.prems by simp_all
  show ?case
  proof (cases "case s0 of None \<Rightarrow> True | Some b \<Rightarrow> f i > b")
    case True
    from Cons.IH [OF rest, of i "Some (f i)"] obtain bi bs where
      r: "best_of score ids (i, Some (f i)) = Inr (bi, bs)"
         "(bi = i \<and> bs = Some (f i)) \<or> (bi \<in> set ids \<and> bs = Some (f bi))"
         "\<exists>w. bs = Some w \<and> f i \<le> w"
         "\<forall>j \<in> set ids. \<exists>w. bs = Some w \<and> f j \<le> w"
      by auto
    from True r show ?thesis
      by (auto simp: sc split: option.splits) 
  next
    case False
    then obtain b where b: "s0 = Some b" "f i \<le> b"
      by (auto split: option.splits)
    from Cons.IH [OF rest, of b0 s0] obtain bi bs where
      r: "best_of score ids (b0, s0) = Inr (bi, bs)"
         "(bi = b0 \<and> bs = s0) \<or> (bi \<in> set ids \<and> bs = Some (f bi))"
         "\<exists>w. bs = Some w \<and> b \<le> w"
         "\<forall>j \<in> set ids. \<exists>w. bs = Some w \<and> f j \<le> w"
      using b by auto
    from False b r show ?thesis
      by (auto simp: sc split: option.splits)
  qed
qed

lemma best_of_start:
  assumes "\<forall>i \<in> set ids. score i = Inr (Some (f i))" and "ids \<noteq> []"
  shows "\<exists>bi. best_of score ids (b0, None) = Inr (bi, Some (f bi)) \<and> bi \<in> set ids \<and>
           (\<forall>i \<in> set ids. f i \<le> f bi)"
proof -
  from best_of_max [OF assms(1), of b0 None] obtain bi bs where
    r: "best_of score ids (b0, None) = Inr (bi, bs)"
       "(bi = b0 \<and> bs = None) \<or> (bi \<in> set ids \<and> bs = Some (f bi))"
       "ids \<noteq> [] \<longrightarrow> bs \<noteq> None"
       "\<forall>i \<in> set ids. \<exists>w. bs = Some w \<and> f i \<le> w"
    by blast
  with assms(2) have "bi \<in> set ids" "bs = Some (f bi)" by auto
  with r show ?thesis by auto
qed

text \<open>The greedy loop under a score that does not depend on what was selected.\<close>

lemma mmr_loop_sorted:
  assumes score: "\<And>sel i. set sel \<subseteq> S \<Longrightarrow> i \<in> I \<Longrightarrow> score sel i = Inr (Some (f i))"
    and lookup: "\<And>i. i \<in> I \<Longrightarrow> \<exists>item. lookup i = Some item \<and> item \<in> S \<and> ident item = i"
    and "set selected \<subseteq> S" and "set remaining \<subseteq> I" and "distinct remaining"
  shows "\<exists>picked. mmr_loop score lookup k selected remaining = Some (Inr (selected @ picked)) \<and>
           set picked \<subseteq> S \<and>
           ident ` set picked \<subseteq> set remaining \<and>
           distinct (map ident picked) \<and>
           sorted_wrt (\<lambda>a b. f (ident a) \<ge> f (ident b)) picked \<and>
           (\<forall>p \<in> set picked. \<forall>r \<in> set remaining. r \<notin> ident ` set picked \<longrightarrow> f r \<le> f (ident p)) \<and>
           int (length picked) \<le> max 0 (k - int (length selected)) \<and>
           ([] \<notin> set remaining \<longrightarrow>
              int (length picked) = max 0 (min (k - int (length selected)) (int (length remaining))))"
  using assms(3-)
proof (induction "length remaining" arbitrary: selected remaining rule: less_induct)
  case less
  show ?case
  proof (cases "int (length selected) < k \<and> remaining \<noteq> []")
    case False
    then show ?thesis
      by (subst mmr_loop.simps) (auto intro!: exI [of _ "[]"])
  next
    case True
    have sc: "\<forall>i \<in> set remaining. score selected i = Inr (Some (f i))"
      using score less.prems by blast
    from best_of_start [OF sc, of "[]"] True obtain bi where
      bi: "best_of (score selected) remaining ([], None) = Inr (bi, Some (f bi))"
          "bi \<in> set remaining" "\<forall>i \<in> set remaining. f i \<le> f bi"
      by blast
    show ?thesis
    proof (cases "bi = []")
      case True
      with \<open>int (length selected) < k \<and> remaining \<noteq> []\<close> bi show ?thesis
        by (subst mmr_loop.simps) (auto intro!: exI [of _ "[]"])
    next
      case False
      from lookup [of bi] bi less.prems obtain item where
        item: "lookup bi = Some item" "item \<in> S" "ident item = bi"
        by blast
      let ?rem = "removeAll bi remaining"
      have len: "length ?rem < length remaining"
        using bi(2) by (simp add: length_removeAll_less)
      have lenrem: "length remaining = Suc (length ?rem)"
        using bi(2) less.prems(3) by (simp add: distinct_remove1_removeAll [symmetric] length_remove1)
           (metis One_nat_def Suc_pred length_pos_if_in_set)
      have prem: "set (selected @ [item]) \<subseteq> S" "set ?rem \<subseteq> I" "distinct ?rem"
        using less.prems item by (auto simp: distinct_removeAll)
      from less.hyps [OF len prem] obtain picked where
        p: "mmr_loop score lookup k (selected @ [item]) ?rem = Some (Inr ((selected @ [item]) @ picked))"
           "set picked \<subseteq> S" "ident ` set picked \<subseteq> set ?rem" "distinct (map ident picked)"
           "sorted_wrt (\<lambda>a b. f (ident a) \<ge> f (ident b)) picked"
           "\<forall>p \<in> set picked. \<forall>r \<in> set ?rem. r \<notin> ident ` set picked \<longrightarrow> f r \<le> f (ident p)"
           "int (length picked) \<le> max 0 (k - int (length (selected @ [item])))"
           "[] \<notin> set ?rem \<longrightarrow>
              int (length picked) = max 0 (min (k - int (length (selected @ [item]))) (int (length ?rem)))"
        by blast
      have eq: "mmr_loop score lookup k selected remaining = Some (Inr (selected @ item # picked))"
        using \<open>int (length selected) < k \<and> remaining \<noteq> []\<close> bi False item p(1)
        by (subst mmr_loop.simps) simp
      have "bi \<notin> ident ` set picked" using p(3) by auto
      moreover have "\<forall>q \<in> set picked. f (ident q) \<le> f bi"
        using p(3) bi(3) by auto
      moreover have "\<forall>r \<in> set remaining. r \<notin> ident ` set (item # picked) \<longrightarrow> r \<in> set ?rem"
        using item by auto
      ultimately show ?thesis
        using eq p item bi \<open>int (length selected) < k \<and> remaining \<noteq> []\<close> lenrem
        by (intro exI [of _ "item # picked"]) (auto simp: image_iff)
    qed
  qed
qed


lemma length_js_set: "length (js_set xs) = card (set xs)"
  by (metis distinct_card js_set_distinct js_set_set)

subsection \<open>Rounding\<close>

lemma js_number_double:
  "rounds_to_doubles fl \<Longrightarrow> js_number fl (js_number fl x) = js_number fl x"
  by (simp add: js_number_def rounds_to_doubles_def)

lemma js_zero:
  "js_add fl 0 0 = 0" "js_mul fl 0 y = 0" "js_div fl 0 y = 0" "js_sub fl x x = 0"
  by (simp_all add: js_add_def js_mul_def js_div_def js_sub_def js_number_def)

lemma exact_arith:
  "js_add (\<lambda>x. x) x y = x + y" "js_sub (\<lambda>x. x) x y = x - y" "js_mul (\<lambda>x. x) x y = x * y"
  "js_div (\<lambda>x. x) x y = x / y" "js_sqrt (\<lambda>x. x) x = sqrt x"
  by (simp_all add: js_add_def js_sub_def js_mul_def js_div_def js_sqrt_def js_number_def)

lemma exact_rounding: "rounds_to_doubles (\<lambda>x. x)"
  by (simp add: rounds_to_doubles_def)

lemma lambda_one_score:
  assumes "rounds_to_doubles fl" and "js_number fl r = r"
  shows "js_sub fl (js_mul fl 1 r) (js_mul fl (js_sub fl 1 1) d) = r"
proof -
  have "js_sub fl 1 1 = 0" by (simp add: js_sub_def js_number_def)
  moreover have "js_mul fl 0 d = 0" by (simp add: js_mul_def js_number_def)
  moreover have "js_mul fl 1 r = r" using assms(2) by (simp add: js_mul_def)
  moreover have "js_sub fl r 0 = r" using assms(2) by (simp add: js_sub_def)
  ultimately show ?thesis by simp
qed

lemma cosineSimilarity_Inr:
  "length a = length b \<Longrightarrow> \<exists>r. cosineSimilarity fl a b = Inr r"
  by (simp add: cosineSimilarity_def Let_def split: prod.splits)

lemma cosineSimilarity_double:
  assumes "rounds_to_doubles fl" and "cosineSimilarity fl a b = Inr r"
  shows "js_number fl r = r"
proof -
  have zero: "js_number fl 0 = 0" by (simp add: js_number_def)
  from assms(2) show ?thesis
    by (auto simp: cosineSimilarity_def Let_def js_div_def zero js_number_double [OF assms(1)]
        split: if_splits prod.splits)
qed

lemma relevance_of_double:
  "rounds_to_doubles fl \<Longrightarrow> js_number fl (relevance_of fl items queryVec i) = relevance_of fl items queryVec i"
  by (auto simp: relevance_of_def js_number_def [of fl 0] dest: cosineSimilarity_double
      split: option.splits sum.splits)

lemma selector_relevance_double:
  "rounds_to_doubles fl \<Longrightarrow>
   js_number fl (selector_relevance fl q embeddings i) = selector_relevance fl q embeddings i"
  by (auto simp: selector_relevance_def js_number_def [of fl 0] dest: cosineSimilarity_double
      split: option.splits sum.splits)

lemma max_similarity_Inr:
  "\<forall>sv \<in> set svs. length sv = length cv \<Longrightarrow> \<exists>r. max_similarity fl cv svs m = Inr r"
proof (induction svs arbitrary: m)
  case Nil
  then show ?case by simp
next
  case (Cons sv svs)
  then obtain r where "cosineSimilarity fl cv sv = Inr r"
    using cosineSimilarity_Inr [of cv sv fl] by auto
  with Cons show ?case by simp
qed

lemma find_id:
  "i \<in> ident ` set xs \<Longrightarrow> \<exists>x. find (\<lambda>y. ident y = i) xs = Some x \<and> x \<in> set xs \<and> ident x = i"
  by (induction xs) auto

lemma mmr_score_lambda_one:
  assumes fl: "rounds_to_doubles fl"
    and dims: "\<forall>it \<in> set items. length (vi_vec it) = length queryVec"
    and sel: "set sel \<subseteq> set items" and i: "i \<in> vi_id ` set items"
  shows "mmr_score fl items queryVec 1 sel i = Inr (Some (relevance_of fl items queryVec i))"
proof -
  from find_id [OF i] obtain item where
    item: "find (\<lambda>it. vi_id it = i) items = Some item" "item \<in> set items"
    by blast
  with dims obtain r where r: "cosineSimilarity fl queryVec (vi_vec item) = Inr r"
    using cosineSimilarity_Inr [of queryVec "vi_vec item" fl] by auto
  have "\<forall>sv \<in> set (map vi_vec sel). length sv = length (vi_vec item)"
    using dims sel item by auto
  from max_similarity_Inr [OF this] obtain d where
    "max_similarity fl (vi_vec item) (map vi_vec sel) 0 = Inr d"
    by blast
  then have "\<exists>d'. calculateDiversity fl i sel items = Inr d'"
    by (simp add: calculateDiversity_def item)
  then obtain d' where "calculateDiversity fl i sel items = Inr d'" ..
  with item r lambda_one_score [OF fl cosineSimilarity_double [OF fl r], of d'] show ?thesis
    by (simp add: mmr_score_def relevance_of_def calculateRelevance_def)
qed

lemma mmr_sorted_by_relevance:
  assumes fl: "rounds_to_doubles fl"
    and dims: "\<forall>it \<in> set items. length (vi_vec it) = length queryVec"
    and k: "0 < k" "k < int (length items)"
  shows "\<exists>ids. mmr fl items queryVec 1 k = Some (Inr ids) \<and>
           sorted_wrt (\<lambda>a b. relevance_of fl items queryVec a \<ge> relevance_of fl items queryVec b) ids \<and>
           distinct ids \<and> set ids \<subseteq> vi_id ` set items \<and>
           (\<forall>p \<in> set ids. \<forall>r \<in> vi_id ` set items. r \<notin> set ids \<longrightarrow>
              relevance_of fl items queryVec r \<le> relevance_of fl items queryVec p) \<and>
           int (length ids) \<le> k \<and>
           ([] \<notin> vi_id ` set items \<longrightarrow> int (length ids) = min k (int (card (vi_id ` set items))))"
proof -
  have ne: "items \<noteq> []" using k by auto
  have lookup: "\<exists>item. find (\<lambda>it. vi_id it = i) items = Some item \<and> item \<in> set items \<and> vi_id item = i"
    if "i \<in> vi_id ` set items" for i
    using find_id [OF that] .
  from mmr_loop_sorted [where score = "mmr_score fl items queryVec 1" and S = "set items"
      and I = "vi_id ` set items" and f = "relevance_of fl items queryVec" and ident = vi_id
      and lookup = "\<lambda>bestId. find (\<lambda>it. vi_id it = bestId) items" and selected = "[]"
      and remaining = "js_set (map vi_id items)" and k = k,
      OF mmr_score_lambda_one [OF fl dims] lookup]
  obtain picked where
    p: "mmr_loop (mmr_score fl items queryVec 1) (\<lambda>bestId. find (\<lambda>it. vi_id it = bestId) items) k []
          (js_set (map vi_id items)) = Some (Inr ([] @ picked))"
       "set picked \<subseteq> set items"
       "vi_id ` set picked \<subseteq> set (js_set (map vi_id items))"
       "distinct (map vi_id picked)"
       "sorted_wrt (\<lambda>a b. relevance_of fl items queryVec (vi_id a) \<ge> relevance_of fl items queryVec (vi_id b)) picked"
       "\<forall>p \<in> set picked. \<forall>r \<in> set (js_set (map vi_id items)). r \<notin> vi_id ` set picked \<longrightarrow>
          relevance_of fl items queryVec r \<le> relevance_of fl items queryVec (vi_id p)"
       "int (length picked) \<le> max 0 (k - int (length ([] :: vec_item list)))"
       "[] \<notin> set (js_set (map vi_id items)) \<longrightarrow>
          int (length picked) = max 0 (min (k - int (length ([] :: vec_item list)))
                                          (int (length (js_set (map vi_id items)))))"
    by auto
  have "mmr fl items queryVec 1 k = Some (Inr (map vi_id picked))"
    using ne k p(1) by (simp add: mmr_def)
  moreover have "sorted_wrt (\<lambda>a b. relevance_of fl items queryVec a \<ge> relevance_of fl items queryVec b) (map vi_id picked)"
    using p(5) by (simp add: sorted_wrt_map)
  moreover have "[] \<notin> vi_id ` set items \<longrightarrow>
      int (length (map vi_id picked)) = min k (int (card (vi_id ` set items)))"
    using p(8) k by (simp add: length_js_set)
  ultimately show ?thesis
    using p(3,4,6,7) k by (intro exI [of _ "map vi_id picked"]) (auto simp: image_iff)
qed

lemma initial_scores_Inr:
  assumes "\<forall>c \<in> set cs. \<forall>e. embeddings (it_id c) = Some e \<longrightarrow> length e = length q"
  shows "\<exists>sc. initial_scores fl q cs embeddings sc0 = Inr sc \<and>
           (\<forall>i. sc i = (if i \<in> it_id ` set cs \<and> embeddings i \<noteq> None
                         then Some (selector_relevance fl q embeddings i) else sc0 i))"
  using assms
proof (induction cs arbitrary: sc0)
  case Nil
  then show ?case by simp
next
  case (Cons c cs)
  have rest: "\<forall>c \<in> set cs. \<forall>e. embeddings (it_id c) = Some e \<longrightarrow> length e = length q"
    using Cons.prems by simp
  show ?case
  proof (cases "embeddings (it_id c)")
    case None
    with Cons.IH [OF rest, of sc0] show ?thesis by auto
  next
    case (Some e)
    with Cons.prems have "length q = length e" by simp
    from cosineSimilarity_Inr [OF this] obtain r where r: "cosineSimilarity fl q e = Inr r" ..
    from Cons.IH [OF rest, of "sc0(it_id c \<mapsto> r)"] obtain sc where
      sc: "initial_scores fl q cs embeddings (sc0(it_id c \<mapsto> r)) = Inr sc"
          "\<forall>i. sc i = (if i \<in> it_id ` set cs \<and> embeddings i \<noteq> None
                         then Some (selector_relevance fl q embeddings i) else (sc0(it_id c \<mapsto> r)) i)"
      by blast
    have "selector_relevance fl q embeddings (it_id c) = r"
      by (simp add: selector_relevance_def Some r)
    with sc Some r show ?thesis
      by (auto simp: calculateRelevance_def)
  qed
qed

lemma selector_max_similarity_Inr:
  assumes "\<forall>c \<in> set items. \<forall>e. embeddings (it_id c) = Some e \<longrightarrow> length e = length ce"
  shows "\<exists>r. selector_max_similarity fl ce items embeddings m = Inr r"
  using assms
proof (induction items arbitrary: m)
  case Nil
  then show ?case by simp
next
  case (Cons c items)
  show ?case
  proof (cases "embeddings (it_id c)")
    case None
    with Cons show ?thesis by simp
  next
    case (Some e)
    with Cons.prems have "length ce = length e" by simp
    from cosineSimilarity_Inr [OF this] obtain r where "cosineSimilarity fl ce e = Inr r" ..
    with Cons Some show ?thesis by simp
  qed
qed

lemma select_score_lambda_one:
  assumes fl: "rounds_to_doubles fl"
    and dims: "\<forall>c \<in> set candidates. \<forall>e. embeddings (it_id c) = Some e \<longrightarrow> length e = length q"
    and lam: "mc_lambda config = 1"
    and double: "js_number fl (score_or_zero scores i) = score_or_zero scores i"
    and sel: "set sel \<subseteq> set candidates" and i: "i \<in> it_id ` set candidates"
  shows "select_score fl config scores embeddings sel i = Inr (Some (score_or_zero scores i))"
proof -
  have "\<exists>d. selector_calculateDiversity fl i sel embeddings = Inr d"
  proof (cases "embeddings i")
    case None
    then show ?thesis by (simp add: selector_calculateDiversity_def)
  next
    case (Some ce)
    with dims i have "length ce = length q" by auto
    with dims sel have "\<forall>c \<in> set sel. \<forall>e. embeddings (it_id c) = Some e \<longrightarrow> length e = length ce"
      by auto
    from selector_max_similarity_Inr [OF this] Some show ?thesis
      by (simp add: selector_calculateDiversity_def)
  qed
  then obtain d where "selector_calculateDiversity fl i sel embeddings = Inr d" ..
  with lam lambda_one_score [OF fl double, of d] show ?thesis
    by (simp add: select_score_def)
qed

lemma select_sorted_by_relevance:
  assumes fl: "rounds_to_doubles fl"
    and dims: "\<forall>c \<in> set candidates. \<forall>e. embeddings (it_id c) = Some e \<longrightarrow> length e = length q"
    and lam: "mc_lambda config = 1"
  shows "\<exists>sel sc. select fl config q candidates embeddings = Some (Inr (sel, sc)) \<and>
           sorted_wrt (\<lambda>a b. selector_relevance fl q embeddings (it_id a)
                              \<ge> selector_relevance fl q embeddings (it_id b)) sel \<and>
           set sel \<subseteq> set candidates \<and> distinct (map it_id sel) \<and>
           (\<forall>p \<in> set sel. \<forall>c \<in> set candidates. it_id c \<notin> it_id ` set sel \<longrightarrow>
              selector_relevance fl q embeddings (it_id c) \<le> selector_relevance fl q embeddings (it_id p)) \<and>
           int (length sel) \<le> max 0 (mc_maxResults config) \<and>
           ([] \<notin> it_id ` set candidates \<longrightarrow>
              int (length sel) = max 0 (min (mc_maxResults config) (int (card (it_id ` set candidates))))) \<and>
           (\<forall>i. sc i = (if i \<in> it_id ` set candidates \<and> embeddings i \<noteq> None
                         then Some (selector_relevance fl q embeddings i) else None))"
proof (cases "candidates = []")
  case True
  then show ?thesis by (simp add: select_def)
next
  case False
  from initial_scores_Inr [OF dims, of fl Map.empty] obtain sc where
    sc: "initial_scores fl q candidates embeddings Map.empty = Inr sc"
        "\<forall>i. sc i = (if i \<in> it_id ` set candidates \<and> embeddings i \<noteq> None
                       then Some (selector_relevance fl q embeddings i) else None)"
    by blast
  have rel: "score_or_zero sc i = selector_relevance fl q embeddings i" if "i \<in> it_id ` set candidates" for i
    using sc(2) that by (auto simp: score_or_zero_def selector_relevance_def split: option.splits)
  have score: "select_score fl config sc embeddings sel i = Inr (Some (selector_relevance fl q embeddings i))"
    if "set sel \<subseteq> set candidates" "i \<in> it_id ` set candidates" for sel i
    using select_score_lambda_one [OF fl dims lam _ that, of sc] rel [OF that(2)]
      selector_relevance_double [OF fl, of q embeddings i]
    by simp
  have lookup: "\<exists>item. find (\<lambda>c. it_id c = i) candidates = Some item \<and> item \<in> set candidates \<and> it_id item = i"
    if "i \<in> it_id ` set candidates" for i
    using find_id [OF that] .
  from mmr_loop_sorted [where score = "select_score fl config sc embeddings" and S = "set candidates"
      and I = "it_id ` set candidates" and f = "selector_relevance fl q embeddings" and ident = it_id
      and lookup = "\<lambda>bestId. find (\<lambda>c. it_id c = bestId) candidates" and selected = "[]"
      and remaining = "js_set (map it_id candidates)" and k = "mc_maxResults config",
      OF score lookup]
  obtain picked where
    p: "mmr_loop (select_score fl config sc embeddings) (\<lambda>bestId. find (\<lambda>c. it_id c = bestId) candidates)
          (mc_maxResults config) [] (js_set (map it_id candidates)) = Some (Inr ([] @ picked))"
       "set picked \<subseteq> set candidates"
       "distinct (map it_id picked)"
       "sorted_wrt (\<lambda>a b. selector_relevance fl q embeddings (it_id a) \<ge> selector_relevance fl q embeddings (it_id b)) picked"
       "\<forall>p \<in> set picked. \<forall>r \<in> set (js_set (map it_id candidates)). r \<notin> it_id ` set picked \<longrightarrow>
          selector_relevance fl q embeddings r \<le> selector_relevance fl q embeddings (it_id p)"
       "int (length picked) \<le> max 0 (mc_maxResults config - int (length ([] :: mmr_item list)))"
       "[] \<notin> set (js_set (map it_id candidates)) \<longrightarrow>
          int (length picked) = max 0 (min (mc_maxResults config - int (length ([] :: mmr_item list)))
                                          (int (length (js_set (map it_id candidates)))))"
    by auto
  have "select fl config q candidates embeddings = Some (Inr (picked, sc))"
    using False sc(1) p(1) by (simp add: select_def)
  moreover have "[] \<notin> it_id ` set candidates \<longrightarrow>
      int (length picked) = max 0 (min (mc_maxResults config) (int (card (it_id ` set candidates))))"
    using p(7) by (simp add: length_js_set)
  ultimately show ?thesis
    using p(2-6) sc(2) by (intro exI [of _ picked] exI [of _ sc]) auto
qed

lemma mmr_all_by_baseScore:
  assumes "items \<noteq> []" and "int (length items) \<le> k"
  shows "mmr fl items queryVec lambda k
           = Some (Inr (map vi_id (sort_key (\<lambda>item. - vi_baseScore item) items))) \<and>
         mset (sort_key (\<lambda>item. - vi_baseScore item) items) = mset items \<and>
         sorted_wrt (\<lambda>a b. vi_baseScore a \<ge> vi_baseScore b) (sort_key (\<lambda>item. - vi_baseScore item) items)"
proof -
  let ?s = "sort_key (\<lambda>item. - vi_baseScore item) items"
  have "k > 0" using assms by (cases items) auto
  then have "mmr fl items queryVec lambda k = Some (Inr (map vi_id ?s))"
    using assms by (simp add: mmr_def)
  moreover have "sorted (map (\<lambda>item. - vi_baseScore item) ?s)"
    by (rule sorted_sort_key)
  then have "sorted_wrt (\<lambda>a b. vi_baseScore a \<ge> vi_baseScore b) ?s"
    by (simp add: sorted_map)
  ultimately show ?thesis by simp
qed

subsection \<open>Concrete runs\<close>

lemma relevance_three_items:
  "relevance_of (\<lambda>x. x) three_items [1, 0] ''a'' = 0"
  "relevance_of (\<lambda>x. x) three_items [1, 0] ''b'' = 1"
  "relevance_of (\<lambda>x. x) three_items [1, 0] ''c'' = - 1"
  by (simp_all add: relevance_of_def three_items_def cosineSimilarity_def exact_arith)

text \<open>
  C5, as the claim states it: with \<open>\<lambda> = 1\<close> the ids come out in descending order of
  cosine relevance, also when \<open>k\<close> is at least the number of candidates.  For \<open>mmr\<close> this
  fails: with two items and \<open>k = 2\<close> the early return orders by \<open>baseScore\<close>, and the item
  of relevance 0 precedes the item of relevance 1.  (The arithmetic is taken exact; on
  these numbers no operation rounds.)
\<close>

theorem mmr_lambda_one_counterexample:
  "mmr (\<lambda>x. x) ce_items [1, 0] 1 2 = Some (Inr [''a'', ''b'']) \<and>
   relevance_of (\<lambda>x. x) ce_items [1, 0] ''a'' = 0 \<and>
   relevance_of (\<lambda>x. x) ce_items [1, 0] ''b'' = 1 \<and>
   \<not> sorted_wrt (\<lambda>i j. relevance_of (\<lambda>x. x) ce_items [1, 0] i \<ge> relevance_of (\<lambda>x. x) ce_items [1, 0] j)
       [''a'', ''b'']"
  by (simp add: mmr_def ce_items_def relevance_of_def cosineSimilarity_def exact_arith)

lemma mmr_three_items:
  "mmr (\<lambda>x. x) three_items [1, 0] 1 2 = Some (Inr [''b'', ''a''])"
  by (simp add: mmr_def three_items_def mmr_loop.simps mmr_score_def calculateRelevance_def
      calculateDiversity_def cosineSimilarity_def exact_arith del: not_None_eq)

lemma select_sel_items:
  "\<exists>sc. select (\<lambda>x. x) \<lparr>mc_lambda = 1, mc_maxResults = 2, mc_diversityThreshold = 0.3\<rparr> [1, 0]
          sel_items sel_embeddings = Some (Inr ([sel_items ! 1, sel_items ! 0], sc))"
  by (simp add: select_def sel_items_def sel_embeddings_def mmr_loop.simps select_score_def
      selector_calculateDiversity_def score_or_zero_def calculateRelevance_def
      cosineSimilarity_def exact_arith del: not_None_eq)

text \<open>
  C5, amended.  Relevance is the relevance the program computes (\<open>relevance_of\<close>,
  \<open>selector_relevance\<close>: the cosine similarity in floating point, 0 for a candidate without
  a vector).  With \<open>\<lambda> = 1\<close>, vectors of the query's dimension that cannot overflow
  (\<open>no_overflow\<close>), and a rounding that leaves doubles unchanged:
  \<^item> \<open>MMRSelector.select\<close> returns, for every \<open>maxResults\<close>, distinct candidates in descending
    order of relevance, none of them less relevant than a candidate left out; when no id
    is the empty string they are exactly \<open>min(maxResults, number of distinct ids)\<close> many;
    and the \<open>scores\<close> map holds the relevance of every candidate that has a vector;
  \<^item> \<open>mmr\<close> does the same when \<open>0 < k < items.length\<close>;
  \<^item> when \<open>k \<ge> items.length\<close>, \<open>mmr\<close> returns the ids of all items, stably sorted by
    descending \<open>baseScore\<close>, whatever \<open>\<lambda>\<close> and the rounding are.
\<close>

theorem mmr_lambda_one_order:
  "(rounds_to_doubles fl \<and> no_overflow q \<and>
    (\<forall>c \<in> set candidates. \<forall>e. embeddings (it_id c) = Some e \<longrightarrow>
       length e = length q \<and> no_overflow e) \<and>
    mc_lambda config = 1 \<longrightarrow>
      (\<exists>sel sc. select fl config q candidates embeddings = Some (Inr (sel, sc)) \<and>
         sorted_wrt (\<lambda>a b. selector_relevance fl q embeddings (it_id a)
                            \<ge> selector_relevance fl q embeddings (it_id b)) sel \<and>
         set sel \<subseteq> set candidates \<and> distinct (map it_id sel) \<and>
         (\<forall>p \<in> set sel. \<forall>c \<in> set candidates. it_id c \<notin> it_id ` set sel \<longrightarrow>
            selector_relevance fl q embeddings (it_id c) \<le> selector_relevance fl q embeddings (it_id p)) \<and>
         int (length sel) \<le> max 0 (mc_maxResults config) \<and>
         ([] \<notin> it_id ` set candidates \<longrightarrow>
            int (length sel) = max 0 (min (mc_maxResults config) (int (card (it_id ` set candidates))))) \<and>
         (\<forall>i. sc i = (if i \<in> it_id ` set candidates \<and> embeddings i \<noteq> None
                       then Some (selector_relevance fl q embeddings i) else None)))) \<and>
   (rounds_to_doubles fl \<and> no_overflow queryVec \<and>
    (\<forall>it \<in> set items. length (vi_vec it) = length queryVec \<and> no_overflow (vi_vec it)) \<and>
    0 < k \<and> k < int (length items) \<longrightarrow>
      (\<exists>ids. mmr fl items queryVec 1 k = Some (Inr ids) \<and>
         sorted_wrt (\<lambda>a b. relevance_of fl items queryVec a \<ge> relevance_of fl items queryVec b) ids \<and>
         distinct ids \<and> set ids \<subseteq> vi_id ` set items \<and>
         (\<forall>p \<in> set ids. \<forall>r \<in> vi_id ` set items. r \<notin> set ids \<longrightarrow>
            relevance_of fl items queryVec r \<le> relevance_of fl items queryVec p) \<and>
         int (length ids) \<le> k \<and>
         ([] \<notin> vi_id ` set items \<longrightarrow> int (length ids) = min k (int (card (vi_id ` set items)))))) \<and>
   (items \<noteq> [] \<and> int (length items) \<le> k \<longrightarrow>
      mmr fl items queryVec lambda k
        = Some (Inr (map vi_id (sort_key (\<lambda>item. - vi_baseScore item) items))) \<and>
      mset (sort_key (\<lambda>item. - vi_baseScore item) items) = mset items \<and>
      sorted_wrt (\<lambda>a b. vi_baseScore a \<ge> vi_baseScore b) (sort_key (\<lambda>item. - vi_baseScore item) items))"
proof (intro conjI impI)
  assume a: "rounds_to_doubles fl \<and> no_overflow q \<and>
    (\<forall>c \<in> set candidates. \<forall>e. embeddings (it_id c) = Some e \<longrightarrow>
       length e = length q \<and> no_overflow e) \<and>
    mc_lambda config = 1"
  then have "\<forall>c \<in> set candidates. \<forall>e. embeddings (it_id c) = Some e \<longrightarrow> length e = length q"
    by blast
  with a show "\<exists>sel sc. select fl config q candidates embeddings = Some (Inr (sel, sc)) \<and>
         sorted_wrt (\<lambda>a b. selector_relevance fl q embeddings (it_id a)
                            \<ge> selector_relevance fl q embeddings (it_id b)) sel \<and>
         set sel \<subseteq> set candidates \<and> distinct (map it_id sel) \<and>
         (\<forall>p \<in> set sel. \<forall>c \<in> set candidates. it_id c \<notin> it_id ` set sel \<longrightarrow>
            selector_relevance fl q embeddings (it_id c) \<le> selector_relevance fl q embeddings (it_id p)) \<and>
         int (length sel) \<le> max 0 (mc_maxResults config) \<and>
         ([] \<notin> it_id ` set candidates \<longrightarrow>
            int (length sel) = max 0 (min (mc_maxResults config) (int (card (it_id ` set candidates))))) \<and>
         (\<forall>i. sc i = (if i \<in> it_id ` set candidates \<and> embeddings i \<noteq> None
                       then Some (selector_relevance fl q embeddings i) else None))"
    by (intro select_sorted_by_relevance) simp_all
next
  assume a: "rounds_to_doubles fl \<and> no_overflow queryVec \<and>
    (\<forall>it \<in> set items. length (vi_vec it) = length queryVec \<and> no_overflow (vi_vec it)) \<and>
    0 < k \<and> k < int (length items)"
  then have "\<forall>it \<in> set items. length (vi_vec it) = length queryVec"
    by blast
  with a show "\<exists>ids. mmr fl items queryVec 1 k = Some (Inr ids) \<and>
         sorted_wrt (\<lambda>a b. relevance_of fl items queryVec a \<ge> relevance_of fl items queryVec b) ids \<and>
         distinct ids \<and> set ids \<subseteq> vi_id ` set items \<and>
         (\<forall>p \<in> set ids. \<forall>r \<in> vi_id ` set items. r \<notin> set ids \<longrightarrow>
            relevance_of fl items queryVec r \<le> relevance_of fl items queryVec p) \<and>
         int (length ids) \<le> k \<and>
         ([] \<notin> vi_id ` set items \<longrightarrow> int (length ids) = min k (int (card (vi_id ` set items))))"
    by (intro mmr_sorted_by_relevance) simp_all
next
  assume a: "items \<noteq> [] \<and> int (length items) \<le> k"
  then show "mmr fl items queryVec lambda k
        = Some (Inr (map vi_id (sort_key (\<lambda>item. - vi_baseScore item) items)))"
    and "mset (sort_key (\<lambda>item. - vi_baseScore item) items) = mset items"
    and "sorted_wrt (\<lambda>a b. vi_baseScore a \<ge> vi_baseScore b) (sort_key (\<lambda>item. - vi_baseScore item) items)"
    using mmr_all_by_baseScore [of items k fl queryVec lambda] by simp_all
qed

text \<open>
  The theorem at work, with the arithmetic taken exact (on these numbers, all of them 0, 1
  or -1, no operation rounds).  Of three items of relevance 0, 1 and -1, \<open>mmr\<close> with \<open>k = 2\<close>
  returns the second and then the first, and the item left out is the least relevant.  Of
  three candidates of relevance 0, 1 and 0 (the last without a vector), \<open>select\<close> with
  \<open>maxResults = 2\<close> returns the second and then the first.  With \<open>k = 2\<close> and two items, \<open>mmr\<close>
  returns both by \<open>baseScore\<close>, also for \<open>\<lambda> = 1/2\<close>.
\<close>

theorem mmr_lambda_one_order_witness:
  "mmr (\<lambda>x. x) three_items [1, 0] 1 2 = Some (Inr [''b'', ''a'']) \<and>
   sorted_wrt (\<lambda>a b. relevance_of (\<lambda>x. x) three_items [1, 0] a
                      \<ge> relevance_of (\<lambda>x. x) three_items [1, 0] b) [''b'', ''a''] \<and>
   relevance_of (\<lambda>x. x) three_items [1, 0] ''c'' \<le> relevance_of (\<lambda>x. x) three_items [1, 0] ''a'' \<and>
   int (length [''b'', ''a'']) = min 2 (int (card (vi_id ` set three_items))) \<and>
   (\<exists>sc. select (\<lambda>x. x) \<lparr>mc_lambda = 1, mc_maxResults = 2, mc_diversityThreshold = 0.3\<rparr> [1, 0]
            sel_items sel_embeddings = Some (Inr ([sel_items ! 1, sel_items ! 0], sc)) \<and>
          sc ''near'' = Some 1 \<and> sc ''far'' = Some 0 \<and> sc ''bare'' = None) \<and>
   sorted_wrt (\<lambda>a b. selector_relevance (\<lambda>x. x) [1, 0] sel_embeddings (it_id a)
                      \<ge> selector_relevance (\<lambda>x. x) [1, 0] sel_embeddings (it_id b))
     [sel_items ! 1, sel_items ! 0] \<and>
   mmr (\<lambda>x. x) ce_items [1, 0] (1 / 2) 2 = Some (Inr [''a'', ''b''])"
proof -
  let ?cfg = "\<lparr>mc_lambda = 1, mc_maxResults = 2, mc_diversityThreshold = 0.3\<rparr>"
  note order = mmr_lambda_one_order [where fl = "\<lambda>x. x"]
  have q: "no_overflow [1, 0]"
    by (simp add: no_overflow_def)
  have dims_mmr: "\<forall>it \<in> set three_items. length (vi_vec it) = length [1 :: real, 0] \<and> no_overflow (vi_vec it)"
    by (simp add: three_items_def no_overflow_def)
  have len: "(0 :: int) < 2 \<and> 2 < int (length three_items)"
    by (simp add: three_items_def)
  from order [where items = three_items and queryVec = "[1, 0]" and k = 2,
      THEN conjunct2, THEN conjunct1, THEN mp, OF conjI [OF exact_rounding conjI [OF q conjI [OF dims_mmr len]]]]
  obtain ids where ids: "mmr (\<lambda>x. x) three_items [1, 0] 1 2 = Some (Inr ids)"
    "sorted_wrt (\<lambda>a b. relevance_of (\<lambda>x. x) three_items [1, 0] a
                        \<ge> relevance_of (\<lambda>x. x) three_items [1, 0] b) ids"
    "\<forall>p \<in> set ids. \<forall>r \<in> vi_id ` set three_items. r \<notin> set ids \<longrightarrow>
        relevance_of (\<lambda>x. x) three_items [1, 0] r \<le> relevance_of (\<lambda>x. x) three_items [1, 0] p"
    "[] \<notin> vi_id ` set three_items \<longrightarrow> int (length ids) = min 2 (int (card (vi_id ` set three_items)))"
    by blast
  from ids(1) mmr_three_items have eq: "ids = [''b'', ''a'']" by simp
  have a: "mmr (\<lambda>x. x) three_items [1, 0] 1 2 = Some (Inr [''b'', ''a''])"
    by (rule mmr_three_items)
  have b: "sorted_wrt (\<lambda>a b. relevance_of (\<lambda>x. x) three_items [1, 0] a
                      \<ge> relevance_of (\<lambda>x. x) three_items [1, 0] b) [''b'', ''a'']"
    using ids(2) unfolding eq .
  have c: "relevance_of (\<lambda>x. x) three_items [1, 0] ''c'' \<le> relevance_of (\<lambda>x. x) three_items [1, 0] ''a''"
    using ids(3) unfolding eq by (simp add: three_items_def)
  have d: "int (length [''b'', ''a'']) = min 2 (int (card (vi_id ` set three_items)))"
    using ids(4) unfolding eq by (simp add: three_items_def)
  have dims_sel: "\<forall>c \<in> set sel_items. \<forall>e. sel_embeddings (it_id c) = Some e \<longrightarrow>
      length e = length [1 :: real, 0] \<and> no_overflow e"
    by (auto simp: sel_items_def sel_embeddings_def no_overflow_def split: if_splits)
  have lam: "mc_lambda ?cfg = 1"
    by simp
  from order [where candidates = sel_items and embeddings = sel_embeddings and q = "[1, 0]"
      and config = ?cfg,
      THEN conjunct1, THEN mp, OF conjI [OF exact_rounding conjI [OF q conjI [OF dims_sel lam]]]]
  obtain sel sc where sel: "select (\<lambda>x. x) ?cfg [1, 0] sel_items sel_embeddings = Some (Inr (sel, sc))"
    "sorted_wrt (\<lambda>a b. selector_relevance (\<lambda>x. x) [1, 0] sel_embeddings (it_id a)
                        \<ge> selector_relevance (\<lambda>x. x) [1, 0] sel_embeddings (it_id b)) sel"
    "\<forall>i. sc i = (if i \<in> it_id ` set sel_items \<and> sel_embeddings i \<noteq> None
                   then Some (selector_relevance (\<lambda>x. x) [1, 0] sel_embeddings i) else None)"
    by blast
  from sel(1) select_sel_items have eqs: "sel = [sel_items ! 1, sel_items ! 0]" by auto
  have e: "\<exists>sc. select (\<lambda>x. x) ?cfg [1, 0] sel_items sel_embeddings
                   = Some (Inr ([sel_items ! 1, sel_items ! 0], sc)) \<and>
             sc ''near'' = Some 1 \<and> sc ''far'' = Some 0 \<and> sc ''bare'' = None"
    using sel(1,3) unfolding eqs
    by (intro exI [of _ sc])
       (simp add: sel_items_def sel_embeddings_def selector_relevance_def cosineSimilarity_def exact_arith)
  have f: "sorted_wrt (\<lambda>a b. selector_relevance (\<lambda>x. x) [1, 0] sel_embeddings (it_id a)
                      \<ge> selector_relevance (\<lambda>x. x) [1, 0] sel_embeddings (it_id b))
     [sel_items ! 1, sel_items ! 0]"
    using sel(2) unfolding eqs .
  have all: "ce_items \<noteq> [] \<and> int (length ce_items) \<le> 2"
    by (simp add: ce_items_def)
  have g: "mmr (\<lambda>x. x) ce_items [1, 0] (1 / 2) 2 = Some (Inr [''a'', ''b''])"
    using order [where items = ce_items and queryVec = "[1, 0]" and k = 2 and lambda = "1 / 2",
        THEN conjunct2, THEN conjunct2, THEN mp, OF all, THEN conjunct1]
    by (simp add: ce_items_def)
  from a b c d e f g show ?thesis by (intro conjI)
qed

subsection \<open>Query confidence\<close>

lemma best_of_mem:
  "best_of score ids (b0, s0) = Inr (bi, bs) \<Longrightarrow> (bi = b0 \<and> bs = s0) \<or> bi \<in> set ids"
proof (induction ids arbitrary: b0 s0)
  case Nil
  then show ?case by simp
next
  case (Cons i ids)
  then show ?case
    by (fastforce split: sum.splits option.splits if_splits)
qed

lemma mmr_loop_total:
  assumes lookup: "\<And>i. i \<in> I \<Longrightarrow> \<exists>item. lookup i = Some item \<and> item \<in> S"
    and "set remaining \<subseteq> I"
  shows "\<exists>res. mmr_loop score lookup k selected remaining = Some res \<and>
           (\<forall>sel. res = Inr sel \<longrightarrow> (\<exists>picked. sel = selected @ picked \<and> set picked \<subseteq> S))"
  using assms(2)
proof (induction "length remaining" arbitrary: selected remaining rule: less_induct)
  case less
  show ?case
  proof (cases "int (length selected) < k \<and> remaining \<noteq> []")
    case False
    then show ?thesis
      by (subst mmr_loop.simps) auto
  next
    case True
    show ?thesis
    proof (cases "best_of (score selected) remaining ([], None)")
      case (Inl e)
      with True show ?thesis
        by (subst mmr_loop.simps) auto
    next
      case (Inr b)
      obtain bi bs where b: "b = (bi, bs)" by (cases b)
      show ?thesis
      proof (cases "bi \<noteq> [] \<and> bs \<noteq> None")
        case False
        with True Inr b show ?thesis
          by (subst mmr_loop.simps) auto
      next
        case pick: True
        with best_of_mem [of "score selected" remaining "[]" None bi bs] Inr b
        have mem: "bi \<in> set remaining" by auto
        with lookup less.prems obtain item where item: "lookup bi = Some item" "item \<in> S"
          by blast
        let ?rem = "removeAll bi remaining"
        have len: "length ?rem < length remaining"
          using mem by (simp add: length_removeAll_less)
        have sub: "set ?rem \<subseteq> I" using less.prems by auto
        from less.hyps [OF len sub, of "selected @ [item]"] obtain res where
          res: "mmr_loop score lookup k (selected @ [item]) ?rem = Some res"
               "\<forall>sel. res = Inr sel \<longrightarrow> (\<exists>picked. sel = (selected @ [item]) @ picked \<and> set picked \<subseteq> S)"
          by blast
        have "mmr_loop score lookup k selected remaining = Some res"
          using True Inr b pick item res(1) by (subst mmr_loop.simps) simp
        moreover have "\<forall>sel. res = Inr sel \<longrightarrow> (\<exists>picked. sel = selected @ picked \<and> set picked \<subseteq> S)"
        proof (intro allI impI)
          fix sel assume "res = Inr sel"
          with res(2) obtain picked where "sel = (selected @ [item]) @ picked" "set picked \<subseteq> S"
            by blast
          with item(2) show "\<exists>picked. sel = selected @ picked \<and> set picked \<subseteq> S"
            by (intro exI [of _ "item # picked"]) simp
        qed
        ultimately show ?thesis by blast
      qed
    qed
  qed
qed

lemma select_total:
  "\<exists>res. select fl config q candidates embeddings = Some res \<and>
     (\<forall>sel sc. res = Inr (sel, sc) \<longrightarrow> set sel \<subseteq> set candidates)"
proof (cases "candidates = []")
  case True
  then show ?thesis by (simp add: select_def)
next
  case False
  show ?thesis
  proof (cases "initial_scores fl q candidates embeddings Map.empty")
    case (Inl e)
    with False show ?thesis by (simp add: select_def)
  next
    case (Inr scores)
    have lookup: "\<exists>item. find (\<lambda>c. it_id c = i) candidates = Some item \<and> item \<in> set candidates"
      if "i \<in> it_id ` set candidates" for i
      using find_id [OF that] by blast
    from mmr_loop_total [where lookup = "\<lambda>bestId. find (\<lambda>c. it_id c = bestId) candidates"
        and I = "it_id ` set candidates" and S = "set candidates"
        and remaining = "js_set (map it_id candidates)" and selected = "[]"
        and score = "select_score fl config scores embeddings" and k = "mc_maxResults config", OF lookup]
    obtain res where
      res: "mmr_loop (select_score fl config scores embeddings)
              (\<lambda>bestId. find (\<lambda>c. it_id c = bestId) candidates)
              (mc_maxResults config) [] (js_set (map it_id candidates)) = Some res"
           "\<forall>sel. res = Inr sel \<longrightarrow> (\<exists>picked. sel = [] @ picked \<and> set picked \<subseteq> set candidates)"
      by auto
    have "select fl config q candidates embeddings = Some (map_sum id (\<lambda>selected. (selected, scores)) res)"
      using False Inr res(1) by (simp add: select_def)
    with res(2) show ?thesis by (cases res) auto
  qed
qed

lemma fold_score_zero:
  "\<forall>s \<in> set sources. it_score s = 0 \<Longrightarrow> fold (\<lambda>s sum. js_add fl sum (it_score s)) sources 0 = 0"
  by (induction sources) (simp_all add: js_zero)

lemma calculateConfidence_zero:
  "\<forall>s \<in> set sources. it_score s = 0 \<Longrightarrow> calculateConfidence fl config sources = 0"
  by (simp add: calculateConfidence_def fold_score_zero js_zero Let_def)

lemma cos_same: "cosineSimilarity (\<lambda>x. x) [1, 0] [1, 0] = Inr 1"
  by (simp add: cosineSimilarity_def exact_arith)

lemma select_same:
  "select (\<lambda>x. x) (selector_config default_rag_config) [1, 0] [item_same] emb_same
     = Some (Inr ([item_same], scores_same))"
proof -
  let ?score = "select_score (\<lambda>x. x) (selector_config default_rag_config) scores_same emb_same"
  let ?lookup = "\<lambda>bestId. find (\<lambda>c. it_id c = bestId) [item_same]"
  have sc: "?score [] ''c1'' = Inr (Some 0.7)"
    by (simp add: select_score_def selector_calculateDiversity_def score_or_zero_def
        selector_config_def default_rag_config_def scores_same_def exact_arith)
  have best: "best_of (?score []) [''c1''] ([], None) = Inr (''c1'', Some 0.7)"
    by (simp add: sc)
  have look: "?lookup ''c1'' = Some item_same"
    by (simp add: item_same_def)
  have l2: "mmr_loop ?score ?lookup 10 [item_same] [] = Some (Inr [item_same])"
    by (subst mmr_loop.simps) simp
  have l1: "mmr_loop ?score ?lookup 10 [] [''c1''] = Some (Inr [item_same])"
    by (subst mmr_loop.simps) (simp add: best look l2 del: best_of.simps find.simps not_None_eq)
  have init: "initial_scores (\<lambda>x. x) [1, 0] [item_same] emb_same Map.empty = Inr scores_same"
    by (simp add: calculateRelevance_def cos_same item_same_def emb_same_def scores_same_def)
  have ids: "js_set (map it_id [item_same]) = [''c1'']"
    by (simp add: item_same_def)
  have k: "mc_maxResults (selector_config default_rag_config) = 10"
    by (simp add: selector_config_def default_rag_config_def)
  show ?thesis
    unfolding select_def init ids k using l1 by simp
qed

lemma query_same_result:
  "query (\<lambda>x. x) default_rag_config (\<lambda>question. [1, 0]) query_same [cand_same] =
     Some (Inr (generateAnswer (\<lambda>x. x) default_rag_config ''what'' [item_same]))"
proof -
  have "map (\<lambda>c. \<lparr>it_id = cand_id c, it_score = 0, it_text = cand_text c,
                   it_metadata = cand_metadata c\<rparr>) [cand_same] = [item_same]"
    by (simp add: cand_same_def item_same_def)
  moreover have "map_of (rev (map (\<lambda>c. (cand_id c, cand_embedding c)) [cand_same])) = emb_same"
    by (simp add: cand_same_def emb_same_def)
  ultimately show ?thesis
    using select_same
    by (simp add: query_def filterCandidates_def query_same_def Let_def selector_config_def)
qed

lemma conf_same: "rr_confidence (generateAnswer (\<lambda>x. x) default_rag_config ''what'' [item_same]) = 0"
  by (simp add: generateAnswer_def calculateConfidence_def item_same_def Let_def exact_arith)

lemma spec_same: "spec_confidence (\<lambda>x. x) default_rag_config [1, 0] emb_same [item_same] = 1 / 5"
  by (simp add: spec_confidence_def selector_relevance_def cos_same item_same_def
      default_rag_config_def emb_same_def)


text \<open>
  C6 asks for the confidence of \<open>query\<close> to be the mean relevance of the selected items
  times \<open>min(selectedCount / maxCitations, 1)\<close>.  The code does not do that: whatever the
  query and the candidates, \<open>query\<close> returns (a result or a thrown error, never looping),
  and the confidence of a result is 0, because every item handed to the selector has
  \<open>score = 0\<close> and the selector never writes the relevance back.
\<close>

theorem query_confidence_always_zero:
  "\<exists>res. query fl config generateEmbedding q candidates = Some res \<and>
     (\<forall>r. res = Inr r \<longrightarrow> rr_confidence r = 0)"
proof -
  define filtered where "filtered = filterCandidates candidates (rq_filters q)"
  define mmrCandidates where "mmrCandidates =
    map (\<lambda>c. \<lparr>it_id = cand_id c, it_score = 0, it_text = cand_text c,
               it_metadata = cand_metadata c\<rparr>) filtered"
  define embeddings where "embeddings = map_of (rev (map (\<lambda>c. (cand_id c, cand_embedding c)) filtered))"
  define cfg where "cfg = selector_config config"
  from select_total [of fl cfg "generateEmbedding (rq_question q)" mmrCandidates embeddings]
  obtain res where
    res: "select fl cfg (generateEmbedding (rq_question q)) mmrCandidates embeddings = Some res"
         "\<forall>sel sc. res = Inr (sel, sc) \<longrightarrow> set sel \<subseteq> set mmrCandidates"
    by blast
  have zero: "\<forall>s \<in> set mmrCandidates. it_score s = 0"
    by (auto simp: mmrCandidates_def)
  have q: "query fl config generateEmbedding q candidates =
      Some (map_sum id (\<lambda>(selected, scores). generateAnswer fl config (rq_question q) selected) res)"
    using res(1)
    by (simp add: query_def Let_def filtered_def mmrCandidates_def embeddings_def cfg_def)
  have "rr_confidence r = 0"
    if "map_sum id (\<lambda>(selected, scores). generateAnswer fl config (rq_question q) selected) res = Inr r" for r
  proof -
    from that obtain sel sc where s: "res = Inr (sel, sc)" "r = generateAnswer fl config (rq_question q) sel"
      by (cases res) auto
    with res(2) zero have "\<forall>s \<in> set sel. it_score s = 0" by blast
    then show ?thesis
      by (simp add: s(2) generateAnswer_def Let_def calculateConfidence_zero)
  qed
  with q show ?thesis by blast
qed



text \<open>At one candidate whose vector is the query vector (relevance 1, default
  configuration) the specification's confidence is \<open>1/5\<close> and the code's is 0.\<close>

theorem query_confidence_always_zero_witness:
  "query (\<lambda>x. x) default_rag_config (\<lambda>question. [1, 0]) query_same [cand_same] =
     Some (Inr (generateAnswer (\<lambda>x. x) default_rag_config ''what'' [item_same])) \<and>
   rr_confidence (generateAnswer (\<lambda>x. x) default_rag_config ''what'' [item_same]) = 0 \<and>
   spec_confidence (\<lambda>x. x) default_rag_config [1, 0] emb_same [item_same] = 1 / 5"
proof -
  from query_confidence_always_zero [of "\<lambda>x. x" default_rag_config "\<lambda>question. [1, 0]" query_same "[cand_same]"]
  obtain res where
    res: "query (\<lambda>x. x) default_rag_config (\<lambda>question. [1, 0]) query_same [cand_same] = Some res"
         "\<forall>r. res = Inr r \<longrightarrow> rr_confidence r = 0"
    by blast
  from res(1) query_same_result have "res = Inr (generateAnswer (\<lambda>x. x) default_rag_config ''what'' [item_same])"
    by simp
  with res(2) have "rr_confidence (generateAnswer (\<lambda>x. x) default_rag_config ''what'' [item_same]) = 0"
    by blast
  with query_same_result spec_same show ?thesis by simp
qed
subsection \<open>Token budget\<close>

lemma lastIndexOf_from_bound:
  "found < pos \<Longrightarrow> lastIndexOf_from s c pos found < pos + int (length s)"
proof (induction s arbitrary: pos found)
  case Nil
  then show ?case by simp
next
  case (Cons x xs)
  have "lastIndexOf_from xs c (pos + 1) (if x = c then pos else found) < (pos + 1) + int (length xs)"
    by (rule Cons.IH) (use Cons.prems in auto)
  then show ?case by simp
qed

lemma lastIndexOf_bound: "lastIndexOf s c < int (length s)"
  using lastIndexOf_from_bound [of "- 1" 0 s c] by (simp add: lastIndexOf_def)

lemma length_js_slice_prefix: "0 \<le> e \<Longrightarrow> int (length (js_slice s 0 e)) \<le> e"
  by (auto simp: js_slice_def Let_def)

lemma js_slice_is_prefix: "prefix (js_slice s 0 e) s"
  by (simp add: js_slice_def Let_def take_is_prefix)

lemma times_double_less_pos:
  "0 \<le> n \<Longrightarrow> times_double_less n m k \<Longrightarrow> 0 < k"
  by (auto simp: times_double_less_def zero_less_mult_iff dest!: order.strict_trans1 [rotated])

lemma truncateText_length:
  assumes "0 \<le> maxTokens"
  shows "int (length (truncateText text maxTokens)) \<le> 4 * maxTokens"
proof (cases "int (length text) \<le> maxTokens * 4")
  case True
  then show ?thesis by (simp add: truncateText_def)
next
  case False
  define tr where "tr = js_slice text 0 (maxTokens * 4)"
  define e where "e = max (max (lastIndexOf tr CHR ''.'') (lastIndexOf tr CHR ''!''))
                          (lastIndexOf tr CHR ''?'')"
  define sp where "sp = lastIndexOf tr CHR '' ''"
  have tr: "int (length tr) \<le> maxTokens * 4"
    using length_js_slice_prefix [of "maxTokens * 4" "text"] assms by (simp add: tr_def)
  have e: "e < maxTokens * 4"
    using lastIndexOf_bound [of tr "CHR ''.''"] lastIndexOf_bound [of tr "CHR ''!''"]
      lastIndexOf_bound [of tr "CHR ''?''"] tr by (simp add: e_def)
  have sp: "sp < maxTokens * 4"
    using lastIndexOf_bound [of tr "CHR '' ''"] tr by (simp add: sp_def)
  have nonneg: "0 \<le> maxTokens * 4"
    using assms by simp
  have unfold: "truncateText text maxTokens =
      (if times_double_less (maxTokens * 4) double_0_7 e then js_slice text 0 (e + 1)
       else if times_double_less (maxTokens * 4) double_0_8 sp then js_slice text 0 sp
       else tr)"
    using False by (simp add: truncateText_def Let_def tr_def e_def sp_def)
  show ?thesis
  proof (cases "times_double_less (maxTokens * 4) double_0_7 e")
    case True
    then have "0 < e"
      by (rule times_double_less_pos [OF nonneg])
    then have "0 \<le> e + 1" by simp
    from length_js_slice_prefix [OF this, of "text"] e have "int (length (js_slice text 0 (e + 1))) \<le> 4 * maxTokens"
      by linarith
    with True show ?thesis
      by (simp only: unfold if_True)
  next
    case notsent: False
    show ?thesis
    proof (cases "times_double_less (maxTokens * 4) double_0_8 sp")
      case True
      then have "0 < sp"
        by (rule times_double_less_pos [OF nonneg])
      then have "0 \<le> sp" by simp
      from length_js_slice_prefix [OF this, of "text"] sp have "int (length (js_slice text 0 sp)) \<le> 4 * maxTokens"
        by linarith
      with True notsent show ?thesis
        by (simp only: unfold if_True if_False)
    next
      case False
      from tr have "int (length tr) \<le> 4 * maxTokens" by linarith
      with False notsent show ?thesis by (simp only: unfold if_False)
    qed
  qed
qed

lemma truncateText_prefix: "prefix (truncateText text maxTokens) text"
  by (simp add: truncateText_def Let_def js_slice_is_prefix)


lemma estimate_le:
  "int (length t) \<le> 4 * r \<Longrightarrow> int (budget_estimateTokens t) \<le> r"
  by (simp add: budget_estimateTokens_def)

lemma length_le_estimate: "length t \<le> 4 * budget_estimateTokens t"
  by (simp add: budget_estimateTokens_def)

lemma pack_snippets_sum:
  "0 \<le> r \<Longrightarrow> (\<Sum>t \<leftarrow> pack_snippets ss r. int (budget_estimateTokens t)) \<le> r"
proof (induction ss arbitrary: r)
  case Nil
  then show ?case by simp
next
  case (Cons s ss)
  let ?n = "int (budget_estimateTokens (sn_text s))"
  show ?case
  proof (cases "?n \<le> r")
    case True
    with Cons.IH [of "r - ?n"] show ?thesis by simp
  next
    case False
    show ?thesis
    proof (cases "r > 20")
      case True
      have "int (budget_estimateTokens (truncateText (sn_text s) r)) \<le> r"
        using truncateText_length [of r "sn_text s"] Cons.prems by (intro estimate_le) simp
      with False True Cons.prems show ?thesis by (simp add: Let_def)
    next
      case False
      with \<open>\<not> ?n \<le> r\<close> Cons.prems show ?thesis by simp
    qed
  qed
qed

lemma pack_snippets_order:
  "length (pack_snippets ss r) \<le> length ss \<and>
   list_all2 (\<lambda>t s. prefix t (sn_text s)) (pack_snippets ss r) (take (length (pack_snippets ss r)) ss) \<and>
   butlast (pack_snippets ss r) = map sn_text (take (length (pack_snippets ss r) - 1) ss)"
proof (induction ss arbitrary: r)
  case Nil
  then show ?case by simp
next
  case (Cons s ss)
  let ?n = "int (budget_estimateTokens (sn_text s))"
  show ?case
  proof (cases "?n \<le> r")
    case True
    with Cons.IH [of "r - ?n"] show ?thesis
      by (cases "pack_snippets ss (r - ?n)") (auto simp: Let_def)
  next
    case False
    then show ?thesis
      by (auto simp: Let_def truncateText_prefix)
  qed
qed

lemma length_js_join:
  "length (js_join sep xs) = sum_list (map length xs) + length sep * (length xs - 1)"
  by (induction sep xs rule: js_join.induct) auto

lemma sum_length_le:
  "int (sum_list (map length xs)) \<le> 4 * (\<Sum>t \<leftarrow> xs. int (budget_estimateTokens t))"
proof (induction xs)
  case Nil
  then show ?case by simp
next
  case (Cons x xs)
  have "int (length x) \<le> 4 * int (budget_estimateTokens x)"
    using length_le_estimate [of x] by linarith
  with Cons show ?case by simp
qed

lemma separators_share: "2 * int (n - 1) \<le> 4 * (int n div 2)"
  by presburger

lemma estimate_join:
  assumes "(\<Sum>t \<leftarrow> xs. int (budget_estimateTokens t)) \<le> m"
  shows "int (budget_estimateTokens (js_join [CHR 0x0A, CHR 0x0A] xs)) \<le> m + int (length xs) div 2"
proof -
  define d where "d = int (length xs) div 2"
  define L where "L = length (js_join [CHR 0x0A, CHR 0x0A] xs)"
  have "int L \<le> 4 * m + 2 * int (length xs - 1)"
    using sum_length_le [of xs] assms by (simp add: length_js_join L_def)
  moreover have "2 * int (length xs - 1) \<le> 4 * d"
    unfolding d_def by (rule separators_share)
  ultimately have "int L + 3 \<le> 4 * (m + d) + 3"
    by simp
  then have "(int L + 3) div 4 \<le> (4 * (m + d) + 3) div 4"
    by (rule zdiv_mono1) simp
  then show ?thesis
    by (simp add: budget_estimateTokens_def zdiv_int d_def L_def)
qed

lemma budget_overrun_bound:
  assumes "0 \<le> maxTokens"
  shows "(\<Sum>t \<leftarrow> pack_snippets (sort_key (\<lambda>s. - sn_score s) snippets) maxTokens.
            int (budget_estimateTokens t)) \<le> maxTokens"
    and "int (budget_estimateTokens (enforceTokenBudgetWithPriority snippets maxTokens))
           \<le> maxTokens + int (length (pack_snippets (sort_key (\<lambda>s. - sn_score s) snippets) maxTokens)) div 2"
proof -
  let ?packed = "pack_snippets (sort_key (\<lambda>s. - sn_score s) snippets) maxTokens"
  have res: "enforceTokenBudgetWithPriority snippets maxTokens = js_join [CHR 0x0A, CHR 0x0A] ?packed"
    by (cases snippets) (simp_all add: enforceTokenBudgetWithPriority_def)
  show sum: "(\<Sum>t \<leftarrow> ?packed. int (budget_estimateTokens t)) \<le> maxTokens"
    by (rule pack_snippets_sum [OF assms])
  show "int (budget_estimateTokens (enforceTokenBudgetWithPriority snippets maxTokens))
      \<le> maxTokens + int (length ?packed) div 2"
    unfolding res by (rule estimate_join [OF sum])
qed

text \<open>
  The thresholds of \<open>truncateText\<close> are doubles: \<open>180 * 0.7\<close> is below 126, so a text cut at
  180 characters whose last sentence ends at index 126 is cut after that sentence.
\<close>

lemma bit_length_numeral [simp]:
  "bit_length 0 = 0" "bit_length (Suc 0) = Suc 0"
  "bit_length (numeral k) = Suc (bit_length (numeral k div 2))"
  by (simp_all add: bit_length.simps [of 0] bit_length.simps [of "Suc 0"] bit_length.simps [of "numeral k"])

lemma double_threshold:
  "times_double_less 180 double_0_7 126 \<and> \<not> times_double_less 180 double_0_8 144"
  by (simp add: times_double_less_def round_to_53_bits_def double_0_7_def double_0_8_def Let_def)

lemma truncateText_at_double_threshold:
  "truncateText long_text 45 = replicate 126 CHR ''a'' @ ''.''"
proof -
  have len: "\<not> int (length long_text) \<le> 180"
    by code_simp
  have e: "max (max (lastIndexOf (js_slice long_text 0 180) CHR ''.'')
                    (lastIndexOf (js_slice long_text 0 180) CHR ''!''))
               (lastIndexOf (js_slice long_text 0 180) CHR ''?'') = 126"
    by code_simp
  have sentence: "js_slice long_text 0 127 = replicate 126 CHR ''a'' @ ''.''"
    by code_simp
  show ?thesis
    using len double_threshold by (simp add: truncateText_def Let_def e sentence)
qed

lemma packed_at_double_threshold:
  "enforceTokenBudgetWithPriority long_snippet 45 = replicate 126 CHR ''a'' @ ''.''"
proof -
  have tokens: "budget_estimateTokens long_text = 46"
    by code_simp
  have kept: "length (trim (replicate 126 CHR ''a'' @ ''.'')) > 0"
    by code_simp
  show ?thesis
    using kept
    by (simp add: enforceTokenBudgetWithPriority_def long_snippet_def tokens
        truncateText_at_double_threshold Let_def)
qed

text \<open>
  C7.  The packed context is not to be estimated above \<open>maxTokens\<close>, but for a single
  first snippet that overflows after truncation.  The code charges the budget snippet by
  snippet and joins the packed snippets with two line feeds that it never charges: two
  snippets of one token each fit a budget of 2, both are packed whole, and the returned
  context of 10 characters is estimated at 3 tokens.  By the module's own
  \<open>fitsWithinBudget\<close> the result does not fit the budget it was packed for.
\<close>

theorem enforceTokenBudgetWithPriority_over_budget:
  "enforceTokenBudgetWithPriority two_snippets 2 = ''aaaa'' @ [CHR 0x0A, CHR 0x0A] @ ''bbbb'' \<and>
   budget_estimateTokens (enforceTokenBudgetWithPriority two_snippets 2) = 3 \<and>
   \<not> fitsWithinBudget (enforceTokenBudgetWithPriority two_snippets 2) 2"
  by (simp add: enforceTokenBudgetWithPriority_def two_snippets_def budget_estimateTokens_def
      fitsWithinBudget_def)

subsection \<open>Chunker\<close>

text \<open>
  C3 asks that every chunk of \<open>chunkText\<close> satisfy
  \<open>source.slice(chunk.start, chunk.end).trim() == chunk.text\<close>.  The code does not: on the
  text of its own test (\<open>chunkText('First.   \n\n   Second.', 30, 10)\<close>, which the test
  expects \<open>validateChunks\<close> to accept) the single chunk is \<open>{0, 14, 'First. Second.'}\<close>, the
  trimmed slice is \<open>'First.'\<close>, and \<open>validateChunks\<close> returns false.
\<close>

theorem chunkText_not_aligned:
  "chunkText test_text 30 10 = [\<lparr>c_start = 0, c_end = 14, c_text = ''First. Second.''\<rparr>] \<and>
   trim (js_slice test_text 0 14) = ''First.'' \<and>
   \<not> chunk_aligned test_text \<lparr>c_start = 0, c_end = 14, c_text = ''First. Second.''\<rparr> \<and>
   \<not> validateChunks (chunkText test_text 30 10) test_text"
  by code_simp

text \<open>
  C10 asks that every chunk have \<open>0 \<le> start \<le> end \<le> input.length\<close>.  The code does not
  keep that: \<open>chunkText('A.B.C.', 1, 3)\<close> seeds its third chunk with the overlap
  \<open>'A. B.'\<close> of five characters before the sentence that starts at 4, so the chunk starts
  at \<open>-1\<close>, and it ends at 7 in a text of 6 characters.
\<close>

theorem chunkText_out_of_bounds:
  "chunkText ''A.B.C.'' 1 3 =
     [\<lparr>c_start = 0, c_end = 2, c_text = ''A.''\<rparr>,
      \<lparr>c_start = 0, c_end = 5, c_text = ''A. B.''\<rparr>,
      \<lparr>c_start = - 1, c_end = 7, c_text = ''A. B. C.''\<rparr>] \<and>
   length ''A.B.C.'' = 6 \<and>
   \<not> chunk_in_bounds ''A.B.C.'' \<lparr>c_start = - 1, c_end = 7, c_text = ''A. B. C.''\<rparr>"
  by code_simp
subsection \<open>Embedding job queue\<close>

declare fate.simps [simp del]

lemma handleResult_outcome:
  "handleResult config processJob job w
   = w\<lparr>w_timers := w_timers w @ outcome_timers config processJob (w_now w) job,
       w_events := w_events w @ outcome_events config processJob job\<rparr>"
  by (cases "processJob job")
     (simp_all add: handleResult_def handleJobFailure_def handleJobSuccess_def setTimeout_def
        emit_def outcome_events_def outcome_timers_def Let_def)

lemma handle_batch:
  "fold (handleResult config processJob) jobs w
   = w\<lparr>w_timers := w_timers w @ concat (map (outcome_timers config processJob (w_now w)) jobs),
       w_events := w_events w @ concat (map (outcome_events config processJob) jobs)\<rparr>"
proof (induction jobs arbitrary: w)
  case Nil
  then show ?case by simp
next
  case (Cons job jobs)
  let ?w = "handleResult config processJob job w"
  have "fold (handleResult config processJob) (job # jobs) w
      = fold (handleResult config processJob) jobs ?w"
    by simp
  also have "\<dots> = ?w\<lparr>w_timers := w_timers ?w @ concat (map (outcome_timers config processJob (w_now ?w)) jobs),
       w_events := w_events ?w @ concat (map (outcome_events config processJob) jobs)\<rparr>"
    by (rule Cons.IH)
  also have "\<dots> = w\<lparr>w_timers := w_timers w @ concat (map (outcome_timers config processJob (w_now w)) (job # jobs)),
       w_events := w_events w @ concat (map (outcome_events config processJob) (job # jobs))\<rparr>"
    by (simp add: handleResult_outcome)
  finally show ?case .
qed

lemma settleBatch_outcomes:
  "settleBatch config processJob w =
     (let settled = w\<lparr>w_isProcessing := False, w_batch := [],
            w_timers := w_timers w @ concat (map (outcome_timers config processJob (w_now w)) (w_batch w)),
            w_events := w_events w @ concat (map (outcome_events config processJob) (w_batch w))\<rparr>
      in if w_queue w = [] then settled
         else settled\<lparr>w_timers := w_timers settled @ [\<lparr>t_due = w_now w + 1000, t_callback = ContinueQueue\<rparr>]\<rparr>)"
  by (simp add: settleBatch_def handle_batch setTimeout_def Let_def)

lemma requeued_append [simp]: "requeued (xs @ ys) = requeued xs @ requeued ys"
  by (induction xs) (auto split: timer_callback.splits)

lemma outcome_fate:
  "mset (outcome_events config processJob job) +
   mset (map (fate config processJob) (requeued (outcome_timers config processJob now job)))
   = {#fate config processJob job#}"
  using fate.simps [of config processJob job]
  by (cases "processJob job") (simp_all add: outcome_events_def outcome_timers_def)

lemma batch_fates:
  "mset (concat (map (outcome_events config processJob) jobs)) +
   mset (map (fate config processJob)
           (requeued (concat (map (outcome_timers config processJob now) jobs))))
   = mset (map (fate config processJob) jobs)"
proof (induction jobs)
  case Nil
  then show ?case by simp
next
  case (Cons job jobs)
  have "mset (concat (map (outcome_events config processJob) (job # jobs))) +
      mset (map (fate config processJob)
              (requeued (concat (map (outcome_timers config processJob now) (job # jobs)))))
      = (mset (outcome_events config processJob job) +
         mset (map (fate config processJob) (requeued (outcome_timers config processJob now job)))) +
        (mset (concat (map (outcome_events config processJob) jobs)) +
         mset (map (fate config processJob)
                 (requeued (concat (map (outcome_timers config processJob now) jobs)))))"
    by simp
  also have "\<dots> = {#fate config processJob job#} + mset (map (fate config processJob) jobs)"
    by (simp only: outcome_fate Cons.IH)
  finally show ?case by simp
qed

lemma outcome_weight:
  "sum_list (map (timer_weight config) (outcome_timers config processJob now job)) + 2
   \<le> job_weight config job"
  by (cases "processJob job") (auto simp: outcome_timers_def timer_weight_def job_weight_def)

lemma batch_weight:
  "sum_list (map (timer_weight config) (concat (map (outcome_timers config processJob now) jobs)))
     + 2 * length jobs
   \<le> sum_list (map (job_weight config) jobs)"
proof (induction jobs)
  case Nil
  then show ?case by simp
next
  case (Cons job jobs)
  with outcome_weight [of config processJob now job] show ?case by simp
qed

lemma pick_None [simp]: "pick i ts = None \<longleftrightarrow> ts = []"
  by (simp add: pick_def Let_def)

lemma pick_Nil [simp]: "pick i [] = None"
  by simp

lemma pick_split:
  assumes "pick i ts = Some (t, rest)"
  shows "\<exists>xs ys. ts = xs @ t # ys \<and> rest = xs @ ys"
proof -
  from assms have ne: "ts \<noteq> []" by (auto simp: pick_def)
  let ?k = "i mod length ts"
  from ne have k: "?k < length ts" by simp
  from assms ne have "t = ts ! ?k" and "rest = take ?k ts @ drop (Suc ?k) ts"
    by (simp_all add: pick_def Let_def)
  with id_take_nth_drop [OF k] show ?thesis by blast
qed

lemma pick_weight:
  "pick i ts = Some (t, rest) \<Longrightarrow> sum_list (map f ts) = f t + sum_list (map (f :: timer \<Rightarrow> nat) rest)"
  by (drule pick_split) auto

lemma pick_requeued:
  "pick i ts = Some (t, rest) \<Longrightarrow> mset (requeued ts) = mset (requeued [t]) + mset (requeued rest)"
  by (drule pick_split) (auto split: timer_callback.splits)

lemma sum_take_drop:
  "sum_list (map f (take n xs)) + sum_list (map f (drop n xs)) = sum_list (map (f :: 'a \<Rightarrow> nat) xs)"
  by (metis append_take_drop_id map_append sum_list.append)

lemma mset_map_cong:
  "mset xs = mset ys \<Longrightarrow> mset (map f xs) = mset (map f ys)"
  by (metis mset_map)

lemma processQueue_props:
  assumes bs: "0 < wc_batchSize config" and pb: "w_isProcessing w = (w_batch w \<noteq> [])"
  shows "well_formed (processQueue config w)"
    and "mset (pending (processQueue config w)) = mset (pending w)"
    and "backlog config (processQueue config w) \<le> backlog config w + 1"
    and "w_events (processQueue config w) = w_events w"
proof -
  show "well_formed (processQueue config w)"
    using bs pb by (cases "w_queue w") (auto simp: well_formed_def processQueue_def)
  show "mset (pending (processQueue config w)) = mset (pending w)"
  proof (cases "w_isProcessing w \<or> length (w_queue w) = 0")
    case True
    then show ?thesis by (simp add: processQueue_def)
  next
    case False
    with pb have "w_batch w = []" by simp
    moreover have "mset (drop (wc_batchSize config) (w_queue w)) + mset (take (wc_batchSize config) (w_queue w))
        = mset (w_queue w)"
      by (metis add.commute append_take_drop_id mset_append)
    ultimately show ?thesis
      using False by (simp add: processQueue_def pending_def)
  qed
  show "backlog config (processQueue config w) \<le> backlog config w + 1"
  proof (cases "w_isProcessing w \<or> length (w_queue w) = 0")
    case True
    then show ?thesis by (simp add: processQueue_def)
  next
    case False
    with pb have "w_batch w = []" by simp
    with False show ?thesis
      using sum_take_drop [of "job_weight config" "wc_batchSize config" "w_queue w"]
      by (simp add: processQueue_def backlog_def)
  qed
  show "w_events (processQueue config w) = w_events w"
    by (simp add: processQueue_def)
qed

lemma settle_props:
  assumes wf: "well_formed w" and p: "w_isProcessing w"
  shows "well_formed (settleBatch config processJob w)"
    and "accounted config processJob (settleBatch config processJob w) = accounted config processJob w"
    and "backlog config (settleBatch config processJob w) < backlog config w"
proof -
  from wf p have b: "w_batch w \<noteq> []" by (simp add: well_formed_def)
  show "well_formed (settleBatch config processJob w)"
    by (simp add: settleBatch_outcomes well_formed_def Let_def)
  show "accounted config processJob (settleBatch config processJob w) = accounted config processJob w"
    using batch_fates [of config processJob "w_batch w" "w_now w"]
    by (simp add: settleBatch_outcomes accounted_def pending_def Let_def ac_simps)
  have "length (w_batch w) \<ge> 1" using b by (cases "w_batch w") simp_all
  with batch_weight [of config processJob "w_now w" "w_batch w"] p
  show "backlog config (settleBatch config processJob w) < backlog config w"
    by (simp add: settleBatch_outcomes backlog_def Let_def timer_weight_def)
qed

lemma fire_props:
  assumes bs: "0 < wc_batchSize config" and wf: "well_formed w"
    and e: "pick i (w_timers w) = Some (t, rest)"
  defines "w' \<equiv> fireTimer config (t_callback t) (w\<lparr>w_timers := rest, w_now := max (w_now w) (t_due t)\<rparr>)"
  shows "well_formed w'"
    and "accounted config processJob w' = accounted config processJob w"
    and "backlog config w' < backlog config w"
proof -
  let ?w1 = "w\<lparr>w_timers := rest, w_now := max (w_now w) (t_due t)\<rparr>"
  from wf have pb: "w_isProcessing w = (w_batch w \<noteq> [])" by (simp add: well_formed_def)
  show "well_formed w'" "accounted config processJob w' = accounted config processJob w"
    "backlog config w' < backlog config w"
  proof (atomize (full), cases "t_callback t")
    case (Requeue job)
    let ?w2 = "?w1\<lparr>w_queue := w_queue ?w1 @ [job]\<rparr>"
    have pb2: "w_isProcessing ?w2 = (w_batch ?w2 \<noteq> [])" using pb by simp
    have w': "w' = processQueue config ?w2" by (simp add: w'_def fireTimer_def Requeue)
    have "mset (pending ?w2) = mset (pending w)"
      using pick_requeued [OF e] by (simp add: pending_def Requeue)
    with processQueue_props(2) [OF bs pb2]
    have "mset (map (fate config processJob) (pending w')) = mset (map (fate config processJob) (pending w))"
      unfolding w' by (intro mset_map_cong) simp
    then have acc: "accounted config processJob w' = accounted config processJob w"
      using processQueue_props(4) [OF bs pb2]
      by (simp add: accounted_def w')
    have "backlog config ?w2 + 2 = backlog config w"
      using pick_weight [OF e, of "timer_weight config"]
      by (simp add: backlog_def timer_weight_def Requeue)
    with processQueue_props(3) [OF bs pb2] have "backlog config w' < backlog config w"
      by (simp add: w')
    with acc processQueue_props(1) [OF bs pb2] show
      "well_formed w' \<and> accounted config processJob w' = accounted config processJob w \<and>
       backlog config w' < backlog config w"
      by (simp add: w')
  next
    case ContinueQueue
    have pb1: "w_isProcessing ?w1 = (w_batch ?w1 \<noteq> [])" using pb by simp
    have w': "w' = processQueue config ?w1" by (simp add: w'_def fireTimer_def ContinueQueue)
    have "mset (pending ?w1) = mset (pending w)"
      using pick_requeued [OF e] by (simp add: pending_def ContinueQueue)
    with processQueue_props(2) [OF bs pb1]
    have "mset (map (fate config processJob) (pending w')) = mset (map (fate config processJob) (pending w))"
      unfolding w' by (intro mset_map_cong) simp
    then have acc: "accounted config processJob w' = accounted config processJob w"
      using processQueue_props(4) [OF bs pb1]
      by (simp add: accounted_def w')
    have "backlog config ?w1 + 2 = backlog config w"
      using pick_weight [OF e, of "timer_weight config"]
      by (simp add: backlog_def timer_weight_def ContinueQueue)
    with processQueue_props(3) [OF bs pb1] have "backlog config w' < backlog config w"
      by (simp add: w')
    with acc processQueue_props(1) [OF bs pb1] show
      "well_formed w' \<and> accounted config processJob w' = accounted config processJob w \<and>
       backlog config w' < backlog config w"
      by (simp add: w')
  qed
qed


lemma step_quiescent:
  "\<not> w_isProcessing w \<Longrightarrow> w_timers w = [] \<Longrightarrow> step config processJob turn w = w"
  by (simp add: step_def)

lemma run_quiescent:
  "\<not> w_isProcessing w \<Longrightarrow> w_timers w = [] \<Longrightarrow> run config processJob turns w = w"
  by (induction turns) (simp_all add: step_quiescent)

lemma run_append:
  "run config processJob (xs @ ys) w = run config processJob ys (run config processJob xs w)"
  by (induction xs arbitrary: w) simp_all

lemma step_props:
  assumes bs: "0 < wc_batchSize config" and wf: "well_formed w" and busy: "\<not> quiescent w"
  shows "well_formed (step config processJob turn w) \<and>
         accounted config processJob (step config processJob turn w) = accounted config processJob w \<and>
         backlog config (step config processJob turn w) < backlog config w"
proof (cases "w_isProcessing w \<and> (turn = BatchSettles \<or> w_timers w = [])")
  case True
  then have "step config processJob turn w = settleBatch config processJob w"
    by (simp add: step_def)
  with settle_props [OF wf, of config processJob] True show ?thesis by simp
next
  case False
  show ?thesis
  proof (cases "pick (timer_index turn) (w_timers w)")
    case None
    then have "w_timers w = []" by simp
    with False wf busy show ?thesis by (auto simp: well_formed_def quiescent_def)
  next
    case (Some p)
    obtain t rest where p: "p = (t, rest)" by (cases p)
    with Some have e: "pick (timer_index turn) (w_timers w) = Some (t, rest)" by simp
    have "step config processJob turn w
        = fireTimer config (t_callback t) (w\<lparr>w_timers := rest, w_now := max (w_now w) (t_due t)\<rparr>)"
      using False e unfolding step_def by auto
    with fire_props(1) [OF bs wf e] fire_props(2) [OF bs wf e, of processJob] fire_props(3) [OF bs wf e]
    show ?thesis by simp
  qed
qed

lemma run_drains:
  assumes bs: "0 < wc_batchSize config"
  shows "well_formed w \<Longrightarrow> backlog config w \<le> length turns \<Longrightarrow>
         quiescent (run config processJob turns w) \<and>
         accounted config processJob (run config processJob turns w) = accounted config processJob w"
proof (induction turns arbitrary: w)
  case Nil
  have "quiescent w"
  proof (rule ccontr)
    assume "\<not> quiescent w"
    from step_props [OF bs Nil.prems(1) this, of processJob BatchSettles] Nil.prems(2)
    show False by simp
  qed
  then show ?case by simp
next
  case (Cons turn turns)
  show ?case
  proof (cases "quiescent w")
    case True
    then have "run config processJob (turn # turns) w = w"
      by (intro run_quiescent) (simp_all add: quiescent_def)
    with True show ?thesis by simp
  next
    case False
    note sp = step_props [OF bs Cons.prems(1) False, of processJob turn]
    from sp Cons.prems(2) have "backlog config (step config processJob turn w) \<le> length turns"
      by simp
    with Cons.IH [of "step config processJob turn w"] sp show ?thesis by simp
  qed
qed

lemma quiescent_accounted:
  "quiescent w \<Longrightarrow> accounted config processJob w = mset (w_events w)"
  by (simp add: quiescent_def accounted_def pending_def)

lemma fate_success:
  assumes "processJob (attempt job (wc_maxRetries config - 1)) = Inr r"
  shows "\<forall>i. j_retries job \<le> i \<and> i < wc_maxRetries config - 1 \<longrightarrow> (\<exists>e. processJob (attempt job i) = Inl e) \<Longrightarrow>
         j_retries job \<le> wc_maxRetries config - 1 \<Longrightarrow>
         fate config processJob job = JobSuccess (attempt job (wc_maxRetries config - 1)) r"
  using assms
proof (induction "wc_maxRetries config - 1 - j_retries job" arbitrary: job)
  case 0
  then have same: "attempt job (wc_maxRetries config - 1) = job" by (simp add: attempt_def)
  with "0.prems"(3) have pj: "processJob job = Inr r" by simp
  then have "fate config processJob job = JobSuccess job r"
    using fate.simps [of config processJob job] by simp
  with same show ?case by simp
next
  case (Suc d)
  let ?job = "job\<lparr>j_retries := j_retries job + 1\<rparr>"
  have same: "attempt (job\<lparr>j_retries := n\<rparr>) i = attempt job i" for n i by (simp add: attempt_def)
  from Suc.hyps(2) have lt: "j_retries job < wc_maxRetries config - 1" by simp
  have "attempt job (j_retries job) = job" by (simp add: attempt_def)
  with Suc.prems(1) lt obtain e where e: "processJob job = Inl e" by (metis order_refl)
  from lt have "j_retries job + 1 < wc_maxRetries config" by linarith
  with e have "fate config processJob job = fate config processJob ?job"
    using fate.simps [of config processJob job] by simp
  also have "\<dots> = JobSuccess (attempt ?job (wc_maxRetries config - 1)) r"
  proof (rule Suc.hyps(1))
    show "d = wc_maxRetries config - 1 - j_retries ?job" using Suc.hyps(2) by simp
    show "\<forall>i. j_retries ?job \<le> i \<and> i < wc_maxRetries config - 1 \<longrightarrow> (\<exists>e. processJob (attempt ?job i) = Inl e)"
      using Suc.prems(1) by (auto simp: same)
    show "j_retries ?job \<le> wc_maxRetries config - 1" using lt by simp
    show "processJob (attempt ?job (wc_maxRetries config - 1)) = Inr r"
      using Suc.prems(3) by (simp add: same)
  qed
  finally show ?case by (simp add: same)
qed

lemma fate_failed:
  assumes m: "0 < wc_maxRetries config"
    and "processJob (attempt job (wc_maxRetries config - 1)) = Inl err"
  shows "\<forall>i. j_retries job \<le> i \<and> i < wc_maxRetries config - 1 \<longrightarrow> (\<exists>e. processJob (attempt job i) = Inl e) \<Longrightarrow>
         j_retries job \<le> wc_maxRetries config - 1 \<Longrightarrow>
         fate config processJob job = JobFailed (attempt job (wc_maxRetries config)) err"
  using assms(2)
proof (induction "wc_maxRetries config - 1 - j_retries job" arbitrary: job)
  case 0
  then have r: "j_retries job = wc_maxRetries config - 1" by simp
  then have "attempt job (wc_maxRetries config - 1) = job" by (simp add: attempt_def)
  with "0.prems"(3) have pj: "processJob job = Inl err" by simp
  from r m have last: "j_retries job + 1 = wc_maxRetries config" by linarith
  then have "\<not> j_retries job + 1 < wc_maxRetries config" by simp
  with pj have "fate config processJob job = JobFailed (job\<lparr>j_retries := j_retries job + 1\<rparr>) err"
    using fate.simps [of config processJob job] by simp
  with last show ?case by (simp add: attempt_def)
next
  case (Suc d)
  let ?job = "job\<lparr>j_retries := j_retries job + 1\<rparr>"
  have same: "attempt (job\<lparr>j_retries := n\<rparr>) i = attempt job i" for n i by (simp add: attempt_def)
  from Suc.hyps(2) have lt: "j_retries job < wc_maxRetries config - 1" by simp
  have "attempt job (j_retries job) = job" by (simp add: attempt_def)
  with Suc.prems(1) lt obtain e where e: "processJob job = Inl e" by (metis order_refl)
  from lt have "j_retries job + 1 < wc_maxRetries config" by linarith
  with e have "fate config processJob job = fate config processJob ?job"
    using fate.simps [of config processJob job] by simp
  also have "\<dots> = JobFailed (attempt ?job (wc_maxRetries config)) err"
  proof (rule Suc.hyps(1))
    show "d = wc_maxRetries config - 1 - j_retries ?job" using Suc.hyps(2) by simp
    show "\<forall>i. j_retries ?job \<le> i \<and> i < wc_maxRetries config - 1 \<longrightarrow> (\<exists>e. processJob (attempt ?job i) = Inl e)"
      using Suc.prems(1) by (auto simp: same)
    show "j_retries ?job \<le> wc_maxRetries config - 1" using lt by simp
    show "processJob (attempt ?job (wc_maxRetries config - 1)) = Inl err"
      using Suc.prems(3) by (simp add: same)
  qed
  finally show ?case by (simp add: same)
qed


lemma well_formed_idle: "well_formed (idle_worker now)"
  by (simp add: well_formed_def idle_worker_def)

lemma well_formed_addJob:
  assumes bs: "0 < wc_batchSize config" and wf: "well_formed w"
  shows "well_formed (addJob config jobId job w)"
proof -
  let ?queued = "w\<lparr>w_queue := sort_key (\<lambda>j. - j_priority j) (w_queue w @ [job\<lparr>j_id := jobId, j_retries := 0\<rparr>])\<rparr>"
  from wf have pb: "w_isProcessing ?queued = (w_batch ?queued \<noteq> [])" by (simp add: well_formed_def)
  show ?thesis
  proof (cases "w_isProcessing w")
    case True
    with wf show ?thesis by (simp add: addJob_def well_formed_def Let_def)
  next
    case False
    then have "addJob config jobId job w = processQueue config ?queued"
      by (simp add: addJob_def Let_def)
    with processQueue_props(1) [OF bs pb] show ?thesis by simp
  qed
qed

lemma well_formed_step:
  assumes bs: "0 < wc_batchSize config" and wf: "well_formed w"
  shows "well_formed (step config processJob turn w)"
proof (cases "quiescent w")
  case True
  then have "step config processJob turn w = w"
    by (intro step_quiescent) (simp_all add: quiescent_def)
  with wf show ?thesis by simp
next
  case False
  from step_props [OF bs wf False] show ?thesis by simp
qed

lemma addJob_idle:
  assumes "0 < wc_batchSize config"
  shows "addJob config jobId job (idle_worker now) = in_flight now (attempt (job\<lparr>j_id := jobId\<rparr>) 0)"
  using assms by (cases "wc_batchSize config") (simp_all add: addJob_def idle_worker_def processQueue_def in_flight_def attempt_def Let_def)

lemma settle_failure_retry:
  assumes "processJob (attempt job k) = Inl e" and "Suc k < wc_maxRetries config"
  shows "settleBatch config processJob (in_flight now (attempt job k))
       = waiting now (wc_retryDelay config * 2 ^ k) (attempt job (Suc k))"
  using assms
  by (simp add: settleBatch_def handleResult_def in_flight_def waiting_def handleJobFailure_def
      setTimeout_def attempt_def Let_def)

lemma settle_failure_final:
  assumes "processJob (attempt job k) = Inl e" and "\<not> Suc k < wc_maxRetries config"
  shows "settleBatch config processJob (in_flight now (attempt job k))
       = (idle_worker now)\<lparr>w_events := [JobFailed (attempt job (Suc k)) e]\<rparr>"
  using assms
  by (simp add: settleBatch_def handleResult_def in_flight_def idle_worker_def handleJobFailure_def
      emit_def attempt_def Let_def)

lemma settle_success:
  assumes "processJob (attempt job k) = Inr r"
  shows "settleBatch config processJob (in_flight now (attempt job k))
       = (idle_worker now)\<lparr>w_events := [JobSuccess (attempt job k) r]\<rparr>"
  using assms
  by (simp add: settleBatch_def handleResult_def in_flight_def idle_worker_def handleJobSuccess_def
      emit_def attempt_def Let_def)

lemma step_in_flight:
  "step config processJob turn (in_flight now job) = settleBatch config processJob (in_flight now job)"
  by (simp add: step_def in_flight_def)

lemma step_waiting:
  assumes "0 < wc_batchSize config"
  shows "step config processJob turn (waiting now delay job) = in_flight (now + delay) job"
  using assms
  by (cases "wc_batchSize config")
     (simp_all add: step_def pick_def waiting_def in_flight_def fireTimer_def processQueue_def)

lemma backoff_sum: "d * (2 ^ k - 1) + d * 2 ^ k = d * (2 ^ Suc k - (1 :: nat))"
proof -
  have "(2 :: nat) ^ k - 1 + 2 ^ k = 2 ^ Suc k - 1"
    by (simp add: Suc_leI mult_2)
  then show ?thesis
    by (metis add_mult_distrib2)
qed

lemma retries_progress:
  assumes bs: "0 < wc_batchSize config"
  shows "length turns = 2 * k \<Longrightarrow> \<forall>i < k. \<exists>e. processJob (attempt job i) = Inl e \<Longrightarrow>
         k < wc_maxRetries config \<Longrightarrow>
         run config processJob turns (in_flight now (attempt job 0))
           = in_flight (now + wc_retryDelay config * (2 ^ k - 1)) (attempt job k)"
proof (induction k arbitrary: turns)
  case 0
  then show ?case by simp
next
  case (Suc k)
  let ?t = "now + wc_retryDelay config * (2 ^ k - 1)"
  from Suc.prems(1) have "length turns = Suc (Suc (2 * k))" by simp
  then obtain ys y where ys: "turns = ys @ [y]" "length ys = Suc (2 * k)"
    by (auto simp: length_Suc_conv_rev)
  then obtain xs x where xs: "ys = xs @ [x]" "length xs = 2 * k"
    by (auto simp: length_Suc_conv_rev)
  from Suc.prems obtain e where e: "processJob (attempt job k) = Inl e" by blast
  have IH: "run config processJob xs (in_flight now (attempt job 0)) = in_flight ?t (attempt job k)"
    using Suc.IH [OF xs(2)] Suc.prems by simp
  have one: "step config processJob x (in_flight ?t (attempt job k))
      = waiting ?t (wc_retryDelay config * 2 ^ k) (attempt job (Suc k))"
    using settle_failure_retry [of processJob job k e config ?t] e Suc.prems(3)
    by (simp add: step_in_flight)
  have two: "step config processJob y (waiting ?t (wc_retryDelay config * 2 ^ k) (attempt job (Suc k)))
      = in_flight (?t + wc_retryDelay config * 2 ^ k) (attempt job (Suc k))"
    by (rule step_waiting [OF bs])
  have "run config processJob turns (in_flight now (attempt job 0))
      = step config processJob y (step config processJob x
          (run config processJob xs (in_flight now (attempt job 0))))"
    by (simp add: ys xs run_append)
  also have "\<dots> = in_flight (?t + wc_retryDelay config * 2 ^ k) (attempt job (Suc k))"
    by (simp only: IH one two)
  finally show ?case
    by (simp only: add.assoc backoff_sum)
qed

lemma run_settled:
  assumes "run config processJob (take a turns) w = (idle_worker t)\<lparr>w_events := evs\<rparr>"
  shows "run config processJob turns w = (idle_worker t)\<lparr>w_events := evs\<rparr>"
proof -
  have "run config processJob (take a turns @ drop a turns) w = (idle_worker t)\<lparr>w_events := evs\<rparr>"
    unfolding run_append assms by (rule run_quiescent) (simp_all add: idle_worker_def)
  then show ?thesis by simp
qed

lemma last_attempt:
  assumes bs: "0 < wc_batchSize config" and m: "0 < wc_maxRetries config"
    and fails: "\<forall>i < wc_maxRetries config - 1. \<exists>e. processJob (attempt job i) = Inl e"
    and len: "length turns = 2 * wc_maxRetries config - 1"
  shows "run config processJob turns (in_flight now (attempt job 0))
       = settleBatch config processJob
           (in_flight (now + wc_retryDelay config * (2 ^ (wc_maxRetries config - 1) - 1))
              (attempt job (wc_maxRetries config - 1)))"
proof -
  let ?k = "wc_maxRetries config - 1"
  have k: "?k < wc_maxRetries config" using m by simp
  have "2 * wc_maxRetries config - 1 = Suc (2 * ?k)" using m by linarith
  with len obtain xs x where xs: "turns = xs @ [x]" "length xs = 2 * ?k"
    by (auto simp: length_Suc_conv_rev)
  have "run config processJob turns (in_flight now (attempt job 0))
      = step config processJob x (run config processJob xs (in_flight now (attempt job 0)))"
    by (simp add: xs run_append)
  also have "\<dots> = step config processJob x
      (in_flight (now + wc_retryDelay config * (2 ^ ?k - 1)) (attempt job ?k))"
    by (simp only: retries_progress [OF bs xs(2) fails k])
  finally show ?thesis by (simp only: step_in_flight)
qed

text \<open>
  C4.  Part one follows a job added to an idle worker at time \<open>now\<close>, under every
  schedule.
  \<^item> After the \<open>k\<close>-th failure, \<open>0 < k < maxRetries\<close>, the job (with \<open>retries = k\<close>) is not in
    the queue but on a timer that re-enqueues it \<open>retryDelay * 2^(k-1)\<close> after the failure,
    and nothing has been emitted.
  \<^item> If the attempt after \<open>maxRetries - 1\<close> failures succeeds, the worker ends quiescent
    (empty queue, no timer, not processing) with exactly the success notification
    emitted, and stays so.
  \<^item> If that attempt fails too (\<open>maxRetries\<close> failures), the worker ends quiescent with
    exactly the failure notification emitted: no timer is left that could re-enqueue the
    job, and the state stays the same for every further turn of the event loop.

  Part two is about every well-formed worker, whatever it has queued, pending and
  scheduled, and every schedule of at least \<open>backlog\<close> turns: the worker ends quiescent; the
  notifications emitted on the way are, as a multiset, exactly one per job that was
  queued, pending or waiting for a retry, namely its \<open>fate\<close>, so that no job is dropped or
  notified twice; and for each such job, if its attempts fail up to attempt
  \<open>maxRetries - 1\<close> and that one succeeds, its success notification has been emitted, and
  if that one fails too, its failure notification (with \<open>retries = maxRetries\<close>) has been
  emitted.
\<close>

theorem retry_lifecycle:
  assumes bs: "0 < wc_batchSize config" and m: "0 < wc_maxRetries config"
  shows
    "(\<forall>k turns. 0 < k \<and> k < wc_maxRetries config \<and> length turns = 2 * k - 1 \<and>
        (\<forall>i < k. \<exists>e. processJob (attempt (job\<lparr>j_id := jobId\<rparr>) i) = Inl e) \<longrightarrow>
        run config processJob turns (addJob config jobId job (idle_worker now))
          = waiting (now + wc_retryDelay config * (2 ^ (k - 1) - 1))
              (wc_retryDelay config * 2 ^ (k - 1)) (attempt (job\<lparr>j_id := jobId\<rparr>) k)) \<and>
     ((\<forall>i < wc_maxRetries config - 1. \<exists>e. processJob (attempt (job\<lparr>j_id := jobId\<rparr>) i) = Inl e) \<and>
      processJob (attempt (job\<lparr>j_id := jobId\<rparr>) (wc_maxRetries config - 1)) = Inr r \<longrightarrow>
        (\<forall>turns. 2 * wc_maxRetries config - 1 \<le> length turns \<longrightarrow>
           run config processJob turns (addJob config jobId job (idle_worker now))
             = (idle_worker (now + wc_retryDelay config * (2 ^ (wc_maxRetries config - 1) - 1)))
                 \<lparr>w_events := [JobSuccess (attempt (job\<lparr>j_id := jobId\<rparr>) (wc_maxRetries config - 1)) r]\<rparr>)) \<and>
     ((\<forall>i < wc_maxRetries config - 1. \<exists>e. processJob (attempt (job\<lparr>j_id := jobId\<rparr>) i) = Inl e) \<and>
      processJob (attempt (job\<lparr>j_id := jobId\<rparr>) (wc_maxRetries config - 1)) = Inl err \<longrightarrow>
        (\<forall>turns. 2 * wc_maxRetries config - 1 \<le> length turns \<longrightarrow>
           run config processJob turns (addJob config jobId job (idle_worker now))
             = (idle_worker (now + wc_retryDelay config * (2 ^ (wc_maxRetries config - 1) - 1)))
                 \<lparr>w_events := [JobFailed (attempt (job\<lparr>j_id := jobId\<rparr>) (wc_maxRetries config)) err]\<rparr>)) \<and>
     (\<forall>w turns. well_formed w \<and> backlog config w \<le> length turns \<longrightarrow>
        quiescent (run config processJob turns w) \<and>
        mset (w_events (run config processJob turns w))
          = mset (w_events w) + mset (map (fate config processJob) (pending w)) \<and>
        (\<forall>j \<in> set (pending w).
           j_retries j \<le> wc_maxRetries config - 1 \<and>
           (\<forall>i. j_retries j \<le> i \<and> i < wc_maxRetries config - 1 \<longrightarrow> (\<exists>e. processJob (attempt j i) = Inl e)) \<longrightarrow>
           (\<forall>res. processJob (attempt j (wc_maxRetries config - 1)) = Inr res \<longrightarrow>
              JobSuccess (attempt j (wc_maxRetries config - 1)) res
                \<in> set (w_events (run config processJob turns w))) \<and>
           (\<forall>e. processJob (attempt j (wc_maxRetries config - 1)) = Inl e \<longrightarrow>
              JobFailed (attempt j (wc_maxRetries config)) e
                \<in> set (w_events (run config processJob turns w)))))"
proof -
  let ?j = "job\<lparr>j_id := jobId\<rparr>"
  let ?w = "addJob config jobId job (idle_worker now)"
  let ?m = "wc_maxRetries config"
  let ?d = "wc_retryDelay config"
  have start: "?w = in_flight now (attempt ?j 0)"
    by (rule addJob_idle [OF bs])
  have A: "run config processJob turns ?w = waiting (now + ?d * (2 ^ (k - 1) - 1)) (?d * 2 ^ (k - 1)) (attempt ?j k)"
    if k: "0 < k \<and> k < ?m \<and> length turns = 2 * k - 1 \<and> (\<forall>i < k. \<exists>e. processJob (attempt ?j i) = Inl e)"
    for k turns
  proof -
    let ?t = "now + ?d * (2 ^ (k - 1) - 1)"
    from k have fails: "\<forall>i < k - 1. \<exists>e. processJob (attempt ?j i) = Inl e" and km: "k - 1 < ?m"
      by auto
    from k obtain e where e: "processJob (attempt ?j (k - 1)) = Inl e"
      by (metis diff_less zero_less_one)
    from k have "length turns = Suc (2 * (k - 1))" by linarith
    then obtain xs x where xs: "turns = xs @ [x]" "length xs = 2 * (k - 1)"
      by (auto simp: length_Suc_conv_rev)
    have "run config processJob turns ?w
        = step config processJob x (run config processJob xs (in_flight now (attempt ?j 0)))"
      by (simp add: xs run_append start)
    also have "\<dots> = step config processJob x (in_flight ?t (attempt ?j (k - 1)))"
      by (simp only: retries_progress [OF bs xs(2) fails km])
    also have "\<dots> = settleBatch config processJob (in_flight ?t (attempt ?j (k - 1)))"
      by (simp only: step_in_flight)
    also have "\<dots> = waiting ?t (?d * 2 ^ (k - 1)) (attempt ?j (Suc (k - 1)))"
      using settle_failure_retry [of processJob ?j "k - 1" e config ?t] e k by simp
    finally show ?thesis using k by simp
  qed
  have B: "run config processJob turns ?w
        = (idle_worker (now + ?d * (2 ^ (?m - 1) - 1)))\<lparr>w_events := [JobSuccess (attempt ?j (?m - 1)) r]\<rparr>"
    if a: "(\<forall>i < ?m - 1. \<exists>e. processJob (attempt ?j i) = Inl e) \<and> processJob (attempt ?j (?m - 1)) = Inr r"
      and n: "2 * ?m - 1 \<le> length turns" for turns
  proof -
    from n have len: "length (take (2 * ?m - 1) turns) = 2 * ?m - 1" by simp
    have "run config processJob (take (2 * ?m - 1) turns) ?w
        = (idle_worker (now + ?d * (2 ^ (?m - 1) - 1)))\<lparr>w_events := [JobSuccess (attempt ?j (?m - 1)) r]\<rparr>"
      using last_attempt [OF bs m _ len, of processJob ?j now] settle_success [of processJob ?j "?m - 1" r] a
      by (simp add: start)
    then show ?thesis by (rule run_settled)
  qed
  have C: "run config processJob turns ?w
        = (idle_worker (now + ?d * (2 ^ (?m - 1) - 1)))\<lparr>w_events := [JobFailed (attempt ?j ?m) err]\<rparr>"
    if a: "(\<forall>i < ?m - 1. \<exists>e. processJob (attempt ?j i) = Inl e) \<and> processJob (attempt ?j (?m - 1)) = Inl err"
      and n: "2 * ?m - 1 \<le> length turns" for turns
  proof -
    from n have len: "length (take (2 * ?m - 1) turns) = 2 * ?m - 1" by simp
    have "run config processJob (take (2 * ?m - 1) turns) ?w
        = (idle_worker (now + ?d * (2 ^ (?m - 1) - 1)))\<lparr>w_events := [JobFailed (attempt ?j ?m) err]\<rparr>"
      using last_attempt [OF bs m _ len, of processJob ?j now]
        settle_failure_final [of processJob ?j "?m - 1" err config] a m
      by (simp add: start)
    then show ?thesis by (rule run_settled)
  qed
  have D: "quiescent (run config processJob turns w) \<and>
        mset (w_events (run config processJob turns w))
          = mset (w_events w) + mset (map (fate config processJob) (pending w)) \<and>
        (\<forall>j \<in> set (pending w).
           j_retries j \<le> ?m - 1 \<and>
           (\<forall>i. j_retries j \<le> i \<and> i < ?m - 1 \<longrightarrow> (\<exists>e. processJob (attempt j i) = Inl e)) \<longrightarrow>
           (\<forall>res. processJob (attempt j (?m - 1)) = Inr res \<longrightarrow>
              JobSuccess (attempt j (?m - 1)) res \<in> set (w_events (run config processJob turns w))) \<and>
           (\<forall>e. processJob (attempt j (?m - 1)) = Inl e \<longrightarrow>
              JobFailed (attempt j ?m) e \<in> set (w_events (run config processJob turns w))))"
    if wf: "well_formed w \<and> backlog config w \<le> length turns" for w :: "'a worker" and turns
  proof -
    let ?after = "run config processJob turns w"
    from wf run_drains [OF bs, of w turns processJob]
    have q: "quiescent ?after" and acc: "accounted config processJob ?after = accounted config processJob w"
      by simp_all
    from acc have ev: "mset (w_events ?after) = mset (w_events w) + mset (map (fate config processJob) (pending w))"
      by (simp add: quiescent_accounted [OF q]) (simp add: accounted_def)
    have mem: "fate config processJob j \<in> set (w_events ?after)" if "j \<in> set (pending w)" for j
    proof -
      from that have "fate config processJob j \<in># mset (map (fate config processJob) (pending w))"
        by simp
      then have "fate config processJob j \<in># mset (w_events ?after)"
        unfolding ev by simp
      then show ?thesis by simp
    qed
    show ?thesis
    proof (intro conjI ballI impI allI)
      show "quiescent ?after" by (rule q)
      show "mset (w_events ?after) = mset (w_events w) + mset (map (fate config processJob) (pending w))"
        by (rule ev)
    next
      fix j res
      assume j: "j \<in> set (pending w)"
        and f: "j_retries j \<le> ?m - 1 \<and>
           (\<forall>i. j_retries j \<le> i \<and> i < ?m - 1 \<longrightarrow> (\<exists>e. processJob (attempt j i) = Inl e))"
        and ok: "processJob (attempt j (?m - 1)) = Inr res"
      from fate_success [of processJob j config res] ok f mem [OF j]
      show "JobSuccess (attempt j (?m - 1)) res \<in> set (w_events ?after)" by simp
    next
      fix j e
      assume j: "j \<in> set (pending w)"
        and f: "j_retries j \<le> ?m - 1 \<and>
           (\<forall>i. j_retries j \<le> i \<and> i < ?m - 1 \<longrightarrow> (\<exists>e. processJob (attempt j i) = Inl e))"
        and ko: "processJob (attempt j (?m - 1)) = Inl e"
      from fate_failed [of config processJob j e] m ko f mem [OF j]
      show "JobFailed (attempt j ?m) e \<in> set (w_events ?after)" by simp
    qed
  qed
  from A B C D show ?thesis by blast
qed


theorem retry_lifecycle_witness:
  "run default_worker_config flaky [BatchSettles, TimerFires 0, BatchSettles, TimerFires 0, BatchSettles]
       (addJob default_worker_config ''job-1'' job0 (idle_worker 0))
     = (idle_worker 15000)\<lparr>w_events := [JobSuccess (attempt (job0\<lparr>j_id := ''job-1''\<rparr>) 2) 1]\<rparr> \<and>
   run default_worker_config broken [TimerFires 0, TimerFires 0, TimerFires 0, TimerFires 0, TimerFires 0, TimerFires 0]
       (addJob default_worker_config ''job-1'' job0 (idle_worker 0))
     = (idle_worker 15000)\<lparr>w_events :=
         [JobFailed (attempt (job0\<lparr>j_id := ''job-1''\<rparr>) 3) (Error ''model down'')]\<rparr> \<and>
   run default_worker_config broken [TimerFires 0, BatchSettles, TimerFires 0]
       (addJob default_worker_config ''job-1'' job0 (idle_worker 0))
     = waiting 5000 10000 (attempt (job0\<lparr>j_id := ''job-1''\<rparr>) 2) \<and>
   quiescent (run default_worker_config mixed (replicate 29 (TimerFires 0)) two_jobs) \<and>
   JobSuccess (attempt job1 2) 1
     \<in> set (w_events (run default_worker_config mixed (replicate 29 (TimerFires 0)) two_jobs)) \<and>
   JobFailed (attempt job2 3) (Error ''model down'')
     \<in> set (w_events (run default_worker_config mixed (replicate 29 (TimerFires 0)) two_jobs))"
proof -
  have bs: "0 < wc_batchSize default_worker_config" and m: "0 < wc_maxRetries default_worker_config"
    by (simp_all add: default_worker_config_def)
  have mr: "wc_maxRetries default_worker_config = 3" and d: "wc_retryDelay default_worker_config = 5000"
    by (simp_all add: default_worker_config_def)
  have flaky: "(\<forall>i < wc_maxRetries default_worker_config - 1.
        \<exists>e. flaky (attempt (job0\<lparr>j_id := ''job-1''\<rparr>) i) = Inl e) \<and>
      flaky (attempt (job0\<lparr>j_id := ''job-1''\<rparr>) (wc_maxRetries default_worker_config - 1)) = Inr 1"
    by (simp add: flaky_def attempt_def mr)
  have broken: "(\<forall>i < wc_maxRetries default_worker_config - 1.
        \<exists>e. broken (attempt (job0\<lparr>j_id := ''job-1''\<rparr>) i) = Inl e) \<and>
      broken (attempt (job0\<lparr>j_id := ''job-1''\<rparr>) (wc_maxRetries default_worker_config - 1))
        = Inl (Error ''model down'')"
    by (simp add: broken_def)
  have two: "0 < (2 :: nat) \<and> 2 < wc_maxRetries default_worker_config \<and>
      length [TimerFires 0, BatchSettles, TimerFires 0] = 2 * 2 - 1 \<and>
      (\<forall>i < 2. \<exists>e. broken (attempt (job0\<lparr>j_id := ''job-1''\<rparr>) i) = Inl e)"
    by (simp add: broken_def mr)
  have a: "run default_worker_config flaky [BatchSettles, TimerFires 0, BatchSettles, TimerFires 0, BatchSettles]
       (addJob default_worker_config ''job-1'' job0 (idle_worker 0))
     = (idle_worker 15000)\<lparr>w_events := [JobSuccess (attempt (job0\<lparr>j_id := ''job-1''\<rparr>) 2) 1]\<rparr>"
    using retry_lifecycle [OF bs m, where processJob = flaky and job = job0 and jobId = "''job-1''"
        and now = 0 and r = 1, THEN conjunct2, THEN conjunct1, THEN mp, OF flaky, THEN spec,
        of "[BatchSettles, TimerFires 0, BatchSettles, TimerFires 0, BatchSettles]"]
    by (simp add: mr d)
  have b: "run default_worker_config broken [TimerFires 0, TimerFires 0, TimerFires 0, TimerFires 0, TimerFires 0, TimerFires 0]
       (addJob default_worker_config ''job-1'' job0 (idle_worker 0))
     = (idle_worker 15000)\<lparr>w_events :=
         [JobFailed (attempt (job0\<lparr>j_id := ''job-1''\<rparr>) 3) (Error ''model down'')]\<rparr>"
    using retry_lifecycle [OF bs m, where processJob = broken and job = job0 and jobId = "''job-1''"
        and now = 0 and err = "Error ''model down''", THEN conjunct2, THEN conjunct2, THEN conjunct1,
        THEN mp, OF broken, THEN spec,
        of "[TimerFires 0, TimerFires 0, TimerFires 0, TimerFires 0, TimerFires 0, TimerFires 0]"]
    by (simp add: mr d)
  have c: "run default_worker_config broken [TimerFires 0, BatchSettles, TimerFires 0]
       (addJob default_worker_config ''job-1'' job0 (idle_worker 0))
     = waiting 5000 10000 (attempt (job0\<lparr>j_id := ''job-1''\<rparr>) 2)"
    using retry_lifecycle [OF bs m, where processJob = broken and job = job0 and jobId = "''job-1''"
        and now = 0, THEN conjunct1, THEN spec, of 2, THEN spec, of "[TimerFires 0, BatchSettles, TimerFires 0]",
        THEN mp, OF two]
    by (simp add: d)
  have w: "two_jobs = \<lparr>w_queue = [job2], w_isProcessing = True, w_batch = [job1], w_timers = [],
                        w_now = 0, w_events = []\<rparr>"
    by (simp add: two_jobs_def addJob_def idle_worker_def processQueue_def default_worker_config_def
        job1_def job2_def job0_def Let_def)
  have load: "well_formed two_jobs \<and>
      backlog default_worker_config two_jobs \<le> length (replicate 29 (TimerFires 0))"
    by (simp add: w well_formed_def backlog_def job_weight_def default_worker_config_def
        job1_def job2_def job0_def)
  have p: "pending two_jobs = [job2, job1]"
    by (simp add: w pending_def)
  note drained = retry_lifecycle [OF bs m, where processJob = mixed, THEN conjunct2, THEN conjunct2,
      THEN conjunct2, THEN spec, of two_jobs, THEN spec, of "replicate 29 (TimerFires 0)", THEN mp, OF load]
  have j1: "j_retries job1 \<le> wc_maxRetries default_worker_config - 1 \<and>
      (\<forall>i. j_retries job1 \<le> i \<and> i < wc_maxRetries default_worker_config - 1 \<longrightarrow>
         (\<exists>e. mixed (attempt job1 i) = Inl e))"
    by (simp add: mr mixed_def flaky_def attempt_def job1_def job0_def)
  have j2: "j_retries job2 \<le> wc_maxRetries default_worker_config - 1 \<and>
      (\<forall>i. j_retries job2 \<le> i \<and> i < wc_maxRetries default_worker_config - 1 \<longrightarrow>
         (\<exists>e. mixed (attempt job2 i) = Inl e))"
    by (simp add: mr mixed_def broken_def attempt_def job2_def job0_def)
  have ok: "mixed (attempt job1 (wc_maxRetries default_worker_config - 1)) = Inr 1"
    by (simp add: mr mixed_def flaky_def attempt_def job1_def job0_def)
  have ko: "mixed (attempt job2 (wc_maxRetries default_worker_config - 1)) = Inl (Error ''model down'')"
    by (simp add: mr mixed_def broken_def attempt_def job2_def job0_def)
  have in1: "job1 \<in> set (pending two_jobs)" and in2: "job2 \<in> set (pending two_jobs)"
    by (simp_all add: p)
  have e: "quiescent (run default_worker_config mixed (replicate 29 (TimerFires 0)) two_jobs)"
    using drained by (rule conjunct1)
  have f: "JobSuccess (attempt job1 2) 1
     \<in> set (w_events (run default_worker_config mixed (replicate 29 (TimerFires 0)) two_jobs))"
    using drained [THEN conjunct2, THEN conjunct2, THEN bspec, OF in1, THEN mp, OF j1, THEN conjunct1,
        THEN spec, of 1, THEN mp, OF ok]
    by (simp add: mr)
  have g: "JobFailed (attempt job2 3) (Error ''model down'')
     \<in> set (w_events (run default_worker_config mixed (replicate 29 (TimerFires 0)) two_jobs))"
    using drained [THEN conjunct2, THEN conjunct2, THEN bspec, OF in2, THEN mp, OF j2, THEN conjunct2,
        THEN spec, of "Error ''model down''", THEN mp, OF ko]
    by (simp add: mr)
  from a b c e f g show ?thesis by (intro conjI)
qed

subsection \<open>Crypto envelope\<close>

lemma toy_crypto_correct: "aead_correct toy_crypto"
  by (simp add: aead_correct_def toy_crypto_def toy_decrypt_def comp_def)

text \<open>
  C1.  With a runtime whose AES-GCM decrypts what it encrypted: whenever \<open>wrapDEK\<close>
  returns, the DEK has 32 bytes and \<open>unwrapDEK\<close> with the same KEK, the returned wrapped
  bytes and the returned nonce gives the DEK back; and \<open>wrapDEK\<close> does return, with the
  nonce it drew, for every 32-byte DEK whose KEK the runtime imports and encrypts under.
\<close>

theorem wrap_unwrap_roundtrip:
  assumes "aead_correct platform"
  shows "(wrapDEK platform nonce kek dek = Inr w \<longrightarrow>
            length dek = 32 \<and> wr_nonce w = nonce \<and>
            unwrapDEK platform kek (wr_wrappedDEK w) (wr_nonce w) = Inr dek) \<and>
         (length dek = 32 \<and> importKey_AES_GCM platform kek = Inr key \<and>
          encrypt_AES_GCM platform nonce key dek = Inr cipher \<longrightarrow>
            wrapDEK platform nonce kek dek = Inr \<lparr>wr_wrappedDEK = cipher, wr_nonce = nonce\<rparr>)"
  using assms
  by (auto simp: wrapDEK_def unwrapDEK_def aead_correct_def split: if_splits sum.splits)

theorem wrap_unwrap_roundtrip_witness:
  "wrapDEK toy_crypto (replicate 12 9) (replicate 32 1) (replicate 32 7)
     = Inr \<lparr>wr_wrappedDEK = replicate 32 8 @ replicate 12 9, wr_nonce = replicate 12 9\<rparr> \<and>
   unwrapDEK toy_crypto (replicate 32 1) (replicate 32 8 @ replicate 12 9) (replicate 12 9)
     = Inr (replicate 32 7)"
proof -
  have enc: "length (replicate 32 (7 :: 8 word)) = 32 \<and>
      importKey_AES_GCM toy_crypto (replicate 32 1) = Inr (replicate 32 1) \<and>
      encrypt_AES_GCM toy_crypto (replicate 12 9) (replicate 32 1) (replicate 32 7)
        = Inr (replicate 32 8 @ replicate 12 9)"
    by (simp add: toy_crypto_def)
  note round = wrap_unwrap_roundtrip [OF toy_crypto_correct, where nonce = "replicate 12 9"
      and kek = "replicate 32 1" and dek = "replicate 32 7"]
  have w: "wrapDEK toy_crypto (replicate 12 9) (replicate 32 1) (replicate 32 7)
     = Inr \<lparr>wr_wrappedDEK = replicate 32 8 @ replicate 12 9, wr_nonce = replicate 12 9\<rparr>"
    by (rule round [THEN conjunct2, THEN mp, OF enc])
  from round [THEN conjunct1, THEN mp, OF w] w show ?thesis by simp
qed

text \<open>
  C9 asks \<open>verifyPassphrase\<close> to return true when the key re-derived from the passphrase
  and the salt equals \<open>expectedKey\<close>.  On a runtime whose \<open>crypto.subtle\<close> has no
  \<open>timingSafeEqual\<close> (the Web Crypto interface as standardised, as in browsers and Node)
  the call throws inside the \<open>try\<close> block and \<open>verifyPassphrase\<close> returns false for every
  passphrase, salt and key, the right ones included.
\<close>

theorem verifyPassphrase_never_true:
  assumes "subtle_timingSafeEqual platform = None"
  shows "verifyPassphrase platform passphrase kdfSalt expectedKey = False"
  using assms by (simp add: verifyPassphrase_def split: sum.splits)

theorem verifyPassphrase_never_true_witness:
  "deriveBits_PBKDF2 toy_crypto_plain (replicate 32 0x42) 100000
       (utf8_encode ''test-passphrase-123'') 256 = Inr (replicate 32 51) \<and>
   verifyPassphrase toy_crypto_plain ''test-passphrase-123'' (replicate 32 0x42) (replicate 32 51) = False"
proof -
  have none: "subtle_timingSafeEqual toy_crypto_plain = None"
    by (simp add: toy_crypto_plain_def)
  have "length (utf8_encode ''test-passphrase-123'') = 19"
    by (simp add: utf8_encode_def)
  then have "deriveBits_PBKDF2 toy_crypto_plain (replicate 32 0x42) 100000
       (utf8_encode ''test-passphrase-123'') 256 = Inr (replicate 32 51)"
    by (simp add: toy_crypto_plain_def toy_crypto_def)
  with verifyPassphrase_never_true [OF none, of "''test-passphrase-123''" "replicate 32 0x42" "replicate 32 51"]
  show ?thesis by simp
qed

text \<open>Where the runtime does provide the comparison (it returns whether two arrays of one
  length are equal), \<open>verifyPassphrase\<close> is the equality of the derived and the expected
  key.\<close>

lemma verifyPassphrase_with_timingSafeEqual:
  assumes "subtle_timingSafeEqual platform = Some eq"
    and "\<forall>a b. length a = length b \<longrightarrow> eq a b = Inr (a = b)"
    and "importKey_PBKDF2 platform (utf8_encode passphrase) = Inr keyMaterial"
    and "deriveBits_PBKDF2 platform kdfSalt 100000 keyMaterial 256 = Inr derived"
  shows "verifyPassphrase platform passphrase kdfSalt expectedKey = (derived = expectedKey)"
  using assms by (auto simp: verifyPassphrase_def)

end
